theory Spec2Isabelle
  imports Main "HOL-Library.Sublist"
begin

section \<open>Emulation of X11 window types from window titles (emulateX11WindowType.js)\<close>

text \<open>
  The development embeds the two classes of \<^verbatim>\<open>emulateX11WindowType.js\<close>:
  \<^verbatim>\<open>ManageWindow\<close>, which decodes the directive a trusted client writes into its window
  title and enforces it, and \<^verbatim>\<open>EmulateX11WindowType\<close>, which keeps the list of managed
  windows and coalesces refresh work into one idle callback.

  Conventions of the embedding.
  \<^item> A JavaScript string is a \<^typ>\<open>string\<close>: a list of code units below 256 (Latin-1).
    Titles with code units above 255 are outside the model.
  \<^item> Indices and the result of \<^verbatim>\<open>search\<close> are \<^typ>\<open>int\<close>, with \<open>-1\<close> for "not found",
    as in the source.
  \<^item> \<^verbatim>\<open>null\<close> and \<^verbatim>\<open>undefined\<close> are both \<^term>\<open>None\<close>; the source never tells them
    apart other than by truthiness and by \<^verbatim>\<open>!== null\<close> on fields that are never
    \<^verbatim>\<open>undefined\<close> when read.
  \<^item> The compositor (Meta, Shell, GLib, the Wayland client) is modelled as far as the two
    classes observe it: the answers to their queries are fields of the state, the
    handlers they connect and the sources they attach are tables of the state, and every
    call they make is appended to a trace.
\<close>

subsection \<open>The string primitives of JavaScript the decoder uses\<close>

text \<open>
  \<^verbatim>\<open>String.prototype.search(regexp)\<close> takes one argument. A string argument is compiled to a
  regular expression; \<^verbatim>\<open>"@!"\<close> and \<^verbatim>\<open>";"\<close> have no metacharacter, so the match is the first
  occurrence of the literal text. The result is its index, or \<open>-1\<close>.
\<close>

primrec search_at :: "string \<Rightarrow> int \<Rightarrow> string \<Rightarrow> int" where
  "search_at pat i [] = (if pat = [] then i else - 1)"
| "search_at pat i (c # cs) =
     (if take (length pat) (c # cs) = pat then i else search_at pat (i + 1) cs)"

definition search :: "string \<Rightarrow> string \<Rightarrow> int" where
  "search s pat = search_at pat 0 s"

text \<open>
  \<^verbatim>\<open>substring(start, end)\<close>: both indices are clamped to \<open>[0, length]\<close> and swapped when
  \<open>start > end\<close>. With \<^verbatim>\<open>end\<close> omitted it is the length of the string.
\<close>

definition substring :: "string \<Rightarrow> int \<Rightarrow> int \<Rightarrow> string" where
  "substring s start end =
     (let len = int (length s);
          finalStart = min (max start 0) len;
          finalEnd = min (max end 0) len;
          from = min finalStart finalEnd;
          to = max finalStart finalEnd
      in take (nat (to - from)) (drop (nat from) s))"

definition substring_from :: "string \<Rightarrow> int \<Rightarrow> string" where
  "substring_from s start = substring s start (int (length s))"

text \<open>
  White space and line terminators of ECMAScript below 256: TAB, LF, VT, FF, CR, SP and
  NBSP. \<^verbatim>\<open>trim()\<close> removes them at both ends.
\<close>

definition isWhiteSpace :: "char \<Rightarrow> bool" where
  "isWhiteSpace c =
     (c \<in> set [CHR 0x09, CHR 0x0A, CHR 0x0B, CHR 0x0C, CHR 0x0D, CHR 0x20, CHR 0xA0])"

definition trim :: "string \<Rightarrow> string" where
  "trim s = rev (dropWhile isWhiteSpace (rev (dropWhile isWhiteSpace s)))"

text \<open>\<^verbatim>\<open>split(",")\<close>: the pieces between the separators; never an empty array.\<close>

primrec split :: "char \<Rightarrow> string \<Rightarrow> string list" where
  "split sep [] = [[]]"
| "split sep (c # cs) =
     (if c = sep then [] # split sep cs
      else (case split sep cs of [] \<Rightarrow> [[c]] | t # ts \<Rightarrow> (c # t) # ts))"

text \<open>
  \<^verbatim>\<open>toUpperCase()\<close> on code units below 256: \<open>a\<close>..\<open>z\<close> and the Latin-1 letters
  \<open>0xE0\<close>..\<open>0xFE\<close> (but \<open>0xF7\<close>, the division sign) move down by 32, and \<open>0xDF\<close> (sharp s)
  becomes \<^verbatim>\<open>SS\<close>. The upper-case forms of \<open>0xB5\<close> and \<open>0xFF\<close> lie above 255 (U+039C and
  U+0178); the model leaves these two code units as they are, which no letter test of
  the decoder can tell apart.
\<close>

definition toUpperCase_char :: "char \<Rightarrow> string" where
  "toUpperCase_char c =
     (let n = (of_char c :: nat) in
      if (97 \<le> n \<and> n \<le> 122) \<or> (224 \<le> n \<and> n \<le> 254 \<and> n \<noteq> 247) then [char_of (n - 32)]
      else if n = 223 then ''SS''
      else [c])"

definition toUpperCase :: "string \<Rightarrow> string" where
  "toUpperCase s = concat (map toUpperCase_char s)"

text \<open>
  A JavaScript number as \<^verbatim>\<open>parseInt\<close> returns it: \<^verbatim>\<open>NaN\<close> or an integer. The model keeps the
  mathematical integer; the source rounds it to a double (exact up to \<open>2^53\<close>) and tells
  \<open>-0\<close> from \<open>0\<close>, which nothing in this file observes.
\<close>

datatype number = NaN | Num int

text \<open>
  \<^verbatim>\<open>parseInt(string)\<close> with no radix: skip leading white space, read a sign, take radix 16
  after a \<^verbatim>\<open>0x\<close> or \<^verbatim>\<open>0X\<close> prefix and 10 otherwise, read the longest run of digits of that
  radix, and return \<^verbatim>\<open>NaN\<close> when the run is empty. It never throws.
\<close>

definition digitValue :: "char \<Rightarrow> nat option" where
  "digitValue c =
     (let n = (of_char c :: nat) in
      if 48 \<le> n \<and> n \<le> 57 then Some (n - 48)
      else if 97 \<le> n \<and> n \<le> 122 then Some (n - 87)
      else if 65 \<le> n \<and> n \<le> 90 then Some (n - 55)
      else None)"

definition isRadixDigit :: "nat \<Rightarrow> char \<Rightarrow> bool" where
  "isRadixDigit R c = (case digitValue c of None \<Rightarrow> False | Some d \<Rightarrow> d < R)"

definition mathInt :: "nat \<Rightarrow> string \<Rightarrow> int" where
  "mathInt R Z =
     foldl (\<lambda>acc c. acc * int R + (case digitValue c of None \<Rightarrow> 0 | Some d \<Rightarrow> int d)) 0 Z"

definition parseInt :: "string \<Rightarrow> number" where
  "parseInt inputString =
     (let S = dropWhile isWhiteSpace inputString;
          sign = (if S \<noteq> [] \<and> hd S = CHR ''-'' then - 1 else 1 :: int);
          S1 = (if S \<noteq> [] \<and> (hd S = CHR ''+'' \<or> hd S = CHR ''-'') then tl S else S);
          hex = (2 \<le> length S1 \<and> (take 2 S1 = ''0x'' \<or> take 2 S1 = ''0X''));
          R = (if hex then 16 else 10);
          S2 = (if hex then drop 2 S1 else S1);
          Z = takeWhile (isRadixDigit R) S2
      in if Z = [] then NaN else Num (sign * mathInt R Z))"

text \<open>
  \<^verbatim>\<open>parseInt(coords[i])\<close>: an index past the end of the array reads \<^verbatim>\<open>undefined\<close>, which
  \<^verbatim>\<open>parseInt\<close> converts to the string \<^verbatim>\<open>"undefined"\<close>.
\<close>

definition parseInt_at :: "string list \<Rightarrow> nat \<Rightarrow> number" where
  "parseInt_at coords i = parseInt (if i < length coords then coords ! i else ''undefined'')"

subsection \<open>ManageWindow\<close>

text \<open>
  The fields of a \<^verbatim>\<open>ManageWindow\<close>. \<open>window\<close> is the reference to the MetaWindow (\<^term>\<open>None\<close>
  after \<^verbatim>\<open>disconnect()\<close>), \<open>wayland_client\<close> whether the client handle is set.
  \<open>this_x\<close> and \<open>this_y\<close> are \<^verbatim>\<open>this._x\<close> and \<^verbatim>\<open>this._y\<close>.
  \<open>keepAtTop\<close> is \<^term>\<open>None\<close> (\<^verbatim>\<open>undefined\<close>) until the first \<^verbatim>\<open>_parseTitle()\<close>, which reads
  it before it assigns it; the other decoded fields are assigned before they are read.
  \<open>unmanagedID\<close> is the property \<^verbatim>\<open>addWindow\<close> adds to the object.
\<close>

record ManageWindow =
  wayland_client :: bool
  window :: "nat option"
  signalIDs :: "nat list"
  this_x :: "number option"
  this_y :: "number option"
  keepAtBottom :: bool
  keepAtTop :: "bool option"
  showInAllDesktops :: bool
  hideFromWindowList :: bool
  fixed :: bool
  unmanagedID :: "nat option"

text \<open>
  The calls a \<^verbatim>\<open>ManageWindow\<close> makes, in the order made: the methods of \<^verbatim>\<open>this._window\<close>,
  the two methods of \<^verbatim>\<open>this._wayland_client\<close> (whose argument is \<^verbatim>\<open>this._window\<close>) and the
  callback \<^verbatim>\<open>this._changedStatusCB\<close>. The handlers and \<^verbatim>\<open>_parseTitle()\<close> run only while the
  signals are connected, that is before \<^verbatim>\<open>disconnect()\<close> sets \<^verbatim>\<open>this._window\<close> to \<^verbatim>\<open>null\<close>.
\<close>

datatype window_call =
    lower
  | move_frame number number
  | make_above
  | unmake_above
  | hide_from_window_list
  | show_in_window_list
  | changedStatusCB
  | change_workspace
  | window_disconnect nat

text \<open>Lines 92--98: a title that ends in a space stands for a fixed directive.\<close>

definition trailing_space_title :: "string \<Rightarrow> string" where
  "trailing_space_title title =
     (if length title > 0 \<and> title ! (length title - 1) = CHR '' '' then
        (if length title > 1 \<and> title ! (length title - 2) = CHR '' '' then ''@!HTD''
         else ''@!H'')
      else title)"

text \<open>
  Lines 101--107. The source calls \<^verbatim>\<open>title.search(";", pos)\<close>; \<^verbatim>\<open>search\<close> has one parameter,
  so \<^verbatim>\<open>pos\<close> is dropped and \<open>pos2\<close> is the first semicolon of the whole title.
\<close>

definition coords_of :: "string \<Rightarrow> int \<Rightarrow> string list" where
  "coords_of title pos =
     (let pos2 = search title '';''
      in if pos2 \<noteq> - 1 then split CHR '','' (trim (substring title (pos + 2) pos2))
         else split CHR '','' (trim (substring_from title (pos + 2))))"

text \<open>Lines 115--136: the switch on one character, and the loop over \<open>extra_chars\<close>.\<close>

definition flag_case :: "char \<Rightarrow> ManageWindow \<Rightarrow> ManageWindow" where
  "flag_case char this =
     (if char = CHR ''B'' then this\<lparr>keepAtBottom := True, keepAtTop := Some False\<rparr>
      else if char = CHR ''T'' then this\<lparr>keepAtTop := Some True, keepAtBottom := False\<rparr>
      else if char = CHR ''D'' then this\<lparr>showInAllDesktops := True\<rparr>
      else if char = CHR ''H'' then this\<lparr>hideFromWindowList := True\<rparr>
      else if char = CHR ''F'' then this\<lparr>fixed := True\<rparr>
      else this)"

primrec flag_loop :: "string \<Rightarrow> ManageWindow \<Rightarrow> ManageWindow" where
  "flag_loop [] this = this"
| "flag_loop (char # rest) this = flag_loop rest (flag_case char this)"

definition extra_chars_of :: "string \<Rightarrow> int \<Rightarrow> string" where
  "extra_chars_of title pos = toUpperCase (trim (substring_from title (pos + 2)))"

text \<open>
  Lines 82--140: the assignments of \<^verbatim>\<open>_parseTitle()\<close>. \<open>title\<close> is what
  \<^verbatim>\<open>this._window.get_title()\<close> returned. Neither \<^verbatim>\<open>try\<close> block can reach its \<^verbatim>\<open>catch\<close>:
  \<^verbatim>\<open>parseInt\<close>, \<^verbatim>\<open>substring\<close>, \<^verbatim>\<open>trim\<close> and \<^verbatim>\<open>toUpperCase\<close> do not throw.
\<close>

definition parseTitle_fields :: "string option \<Rightarrow> ManageWindow \<Rightarrow> ManageWindow" where
  "parseTitle_fields title0 this0 =
     (let this1 = this0\<lparr>this_x := None, this_y := None, keepAtBottom := False, keepAtTop := Some False,
                        showInAllDesktops := False, hideFromWindowList := False,
                        fixed := False\<rparr>
      in case title0 of
           None \<Rightarrow> this1
         | Some title1 \<Rightarrow>
             (let title = trailing_space_title title1;
                  pos = search title ''@!''
              in if pos \<noteq> - 1 then
                   (let coords = coords_of title pos;
                        this2 = this1\<lparr>this_x := Some (parseInt_at coords 0),
                                      this_y := Some (parseInt_at coords 1)\<rparr>
                    in flag_loop (extra_chars_of title pos) this2)
                 else this1))"

text \<open>
  Lines 141--161: what \<^verbatim>\<open>_parseTitle()\<close> does with the decoded fields when the title is
  not \<^verbatim>\<open>null\<close>. \<open>keepAtTop0\<close> is the value of \<^verbatim>\<open>this._keepAtTop\<close> on entry; \<^verbatim>\<open>false != undefined\<close>
  holds in JavaScript, so the first decode of a window always reaches one of the two
  branches of line 148.
\<close>

definition parseTitle_calls :: "bool option \<Rightarrow> ManageWindow \<Rightarrow> window_call list" where
  "parseTitle_calls keepAtTop0 this =
     (if wayland_client this then
        (if hideFromWindowList this then [hide_from_window_list]
         else [show_in_window_list])
      else []) @
     (if keepAtTop this \<noteq> keepAtTop0 then
        (if keepAtTop this = Some True then [make_above] else [unmake_above])
      else []) @
     (if keepAtBottom this then [lower] else []) @
     (if fixed this \<and> this_x this \<noteq> None \<and> this_y this \<noteq> None then
        [move_frame (the (this_x this)) (the (this_y this))]
      else []) @
     [changedStatusCB]"

definition parseTitle :: "string option \<Rightarrow> ManageWindow \<Rightarrow> ManageWindow \<times> window_call list" where
  "parseTitle title this0 =
     (let this = parseTitle_fields title this0
      in (this, if title \<noteq> None then parseTitle_calls (keepAtTop this0) this else []))"

text \<open>
  Lines 40--64: the constructor. \<open>ids\<close> are the handler ids the four \<^verbatim>\<open>connect\<close> calls
  returned, \<open>title\<close> what \<^verbatim>\<open>get_title()\<close> returns to the \<^verbatim>\<open>_parseTitle()\<close> of line 63. The
  decoded fields do not exist before that call: they are \<^verbatim>\<open>undefined\<close>.
\<close>

definition new_fields :: "nat \<Rightarrow> bool \<Rightarrow> nat list \<Rightarrow> ManageWindow" where
  "new_fields w client ids =
     \<lparr>wayland_client = client, window = Some w, signalIDs = ids,
      this_x = None, this_y = None, keepAtBottom = False, keepAtTop = None,
      showInAllDesktops = False, hideFromWindowList = False, fixed = False,
      unmanagedID = None\<rparr>"

definition new_ManageWindow ::
  "nat \<Rightarrow> bool \<Rightarrow> nat list \<Rightarrow> string option \<Rightarrow> ManageWindow \<times> window_call list" where
  "new_ManageWindow w client ids title = parseTitle title (new_fields w client ids)"

text \<open>Lines 45--62: the four handlers the constructor connects.\<close>

definition on_raised :: "ManageWindow \<Rightarrow> window_call list" where
  "on_raised this = (if keepAtBottom this \<and> keepAtTop this \<noteq> Some True then [lower] else [])"

definition on_position_changed :: "ManageWindow \<Rightarrow> window_call list" where
  "on_position_changed this =
     (if fixed this \<and> this_x this \<noteq> None \<and> this_y this \<noteq> None then
        [move_frame (the (this_x this)) (the (this_y this))]
      else [])"

definition on_notify_title :: "string option \<Rightarrow> ManageWindow \<Rightarrow> ManageWindow \<times> window_call list" where
  "on_notify_title title this = parseTitle title this"

definition on_notify_above :: "bool \<Rightarrow> ManageWindow \<Rightarrow> window_call list" where
  "on_notify_above window_above this =
     (if keepAtBottom this \<and> window_above then [unmake_above] else [])"

text \<open>
  The decoded fields as the specification names them (its Directive). A position is a
  pair of fields that are not \<^verbatim>\<open>null\<close>; \<open>pinTop\<close> is the truth value of \<^verbatim>\<open>_keepAtTop\<close>.
\<close>

record Directive =
  position :: "(number \<times> number) option"
  pinBottom :: bool
  pinTop :: bool
  showOnAllWorkspaces :: bool
  hideFromWindowList_flag :: bool
  fixedPosition :: bool

definition directive_of :: "ManageWindow \<Rightarrow> Directive" where
  "directive_of this =
     \<lparr>position = (case (this_x this, this_y this) of (Some a, Some b) \<Rightarrow> Some (a, b) | _ \<Rightarrow> None),
      pinBottom = keepAtBottom this,
      pinTop = (keepAtTop this = Some True),
      showOnAllWorkspaces = showInAllDesktops this,
      hideFromWindowList_flag = hideFromWindowList this,
      fixedPosition = fixed this\<rparr>"

definition decode :: "string option \<Rightarrow> ManageWindow \<Rightarrow> Directive" where
  "decode title this = directive_of (fst (parseTitle title this))"

definition empty_Directive :: Directive where
  "empty_Directive =
     \<lparr>position = None, pinBottom = False, pinTop = False, showOnAllWorkspaces = False,
      hideFromWindowList_flag = False, fixedPosition = False\<rparr>"

text \<open>Lines 165--175: \<^verbatim>\<open>refreshState\<close>. \<open>located\<close> is what \<^verbatim>\<open>located_on_workspace\<close> returns for
  the active workspace; it is asked only when the first test holds.\<close>

definition refreshState :: "bool \<Rightarrow> bool \<Rightarrow> ManageWindow \<Rightarrow> window_call list" where
  "refreshState checkWorkspace located this =
     (if checkWorkspace \<and> showInAllDesktops this then
        (if \<not> located then [change_workspace] else [])
      else []) @
     (if keepAtBottom this then [lower] else [])"

text \<open>Lines 66--75: \<^verbatim>\<open>disconnect()\<close>.\<close>

definition disconnect :: "ManageWindow \<Rightarrow> ManageWindow \<times> window_call list" where
  "disconnect this =
     (this\<lparr>window := None, wayland_client := False\<rparr>,
      map window_disconnect (signalIDs this) @
      (if keepAtTop this = Some True then [unmake_above] else []))"

subsection \<open>The compositor as the coordinator sees it\<close>

text \<open>
  A MetaWindow: what its queries return, the property \<^verbatim>\<open>customJS_ding\<close> that \<^verbatim>\<open>addWindow\<close>
  attaches to it, and the ids of the signal handlers connected on it. Windows are shared
  objects, so the state holds them in a store indexed by reference.
\<close>

record MetaWindow =
  get_title :: "string option"
  minimized :: bool
  located_on_workspace :: bool
  customJS_ding :: "ManageWindow option"
  connections :: "nat list"

datatype priority =
  PRIORITY_HIGH | PRIORITY_DEFAULT | PRIORITY_HIGH_IDLE | PRIORITY_DEFAULT_IDLE | PRIORITY_LOW

datatype wm_signal = map_signal | destroy_signal | switch_workspace_signal

datatype overview_signal = showing_signal | hiding_signal

text \<open>The one exception these methods can raise: a property read on \<^verbatim>\<open>null\<close>.\<close>

datatype error = TypeError

text \<open>
  The calls the coordinator makes on its collaborators, in the order made. Calls that
  return an id (\<^verbatim>\<open>connect\<close>, \<^verbatim>\<open>idle_add\<close>) show in the tables of the state instead.
\<close>

datatype call =
    on_window nat window_call
  | activateWindow nat
  | source_remove nat
  | window_manager_disconnect nat
  | overview_disconnect nat

text \<open>
  The fields of the \<^verbatim>\<open>EmulateX11WindowType\<close> object. \<open>emulator_wayland_client\<close> is
  \<^verbatim>\<open>this._wayland_client\<close>: whether a client is set.
\<close>

record EmulateX11WindowType =
  isX11 :: bool
  windowList :: "nat list"
  enableRefresh :: bool
  emulator_wayland_client :: bool
  idMap :: "nat option"
  idDestroy :: "nat option"
  switchWorkspaceId :: "nat option"
  showingId :: "nat option"
  hidingId :: "nat option"
  activate_window_ID :: "nat option"

text \<open>
  The state: the object, the window store, the handlers the program has connected on
  \<^verbatim>\<open>global.window_manager\<close> and on \<^verbatim>\<open>Main.overview\<close>, the sources it has attached to the
  GLib main context, what \<^verbatim>\<open>get_tab_list(NORMAL_ALL, active workspace)\<close> returns, and the
  trace. The tables hold what this program connected and attached; handlers and sources
  of other parts of the shell are not in them.

  A source is its id, its priority and its callback. The only callback the program
  attaches is the closure of \<^verbatim>\<open>_refreshWindows\<close>, so a callback is the \<^verbatim>\<open>checkWorkspace\<close> that
  closure captured. GObject and GLib hand out positive ids from a counter:
  \<open>handler_ids\<close> and \<open>source_ids\<close> hold the last id handed out.
\<close>

record state =
  emulator :: EmulateX11WindowType
  windows :: "nat \<Rightarrow> MetaWindow"
  window_manager :: "(nat \<times> wm_signal) list"
  overview :: "(nat \<times> overview_signal) list"
  handler_ids :: nat
  sources :: "(nat \<times> priority \<times> bool) list"
  source_ids :: nat
  tab_list :: "nat list"
  calls :: "call list"

text \<open>The truth value of an id field: \<^verbatim>\<open>undefined\<close>, \<^verbatim>\<open>null\<close> and \<open>0\<close> are false.\<close>

definition truthy :: "nat option \<Rightarrow> bool" where
  "truthy v = (case v of None \<Rightarrow> False | Some n \<Rightarrow> n \<noteq> 0)"

definition window_connect :: "nat \<Rightarrow> state \<Rightarrow> nat \<times> state" where
  "window_connect w st =
     (let i = Suc (handler_ids st)
      in (i, st\<lparr>handler_ids := i,
                windows := (windows st)
                  (w := (windows st w)\<lparr>connections := connections (windows st w) @ [i]\<rparr>)\<rparr>))"

definition window_manager_connect :: "wm_signal \<Rightarrow> state \<Rightarrow> nat \<times> state" where
  "window_manager_connect sig st =
     (let i = Suc (handler_ids st)
      in (i, st\<lparr>handler_ids := i, window_manager := window_manager st @ [(i, sig)]\<rparr>))"

definition overview_connect :: "overview_signal \<Rightarrow> state \<Rightarrow> nat \<times> state" where
  "overview_connect sig st =
     (let i = Suc (handler_ids st)
      in (i, st\<lparr>handler_ids := i, overview := overview st @ [(i, sig)]\<rparr>))"

definition idle_add :: "priority \<Rightarrow> bool \<Rightarrow> state \<Rightarrow> nat \<times> state" where
  "idle_add prio callback st =
     (let i = Suc (source_ids st)
      in (i, st\<lparr>source_ids := i, sources := sources st @ [(i, prio, callback)]\<rparr>))"

definition remove_source :: "nat \<Rightarrow> state \<Rightarrow> state" where
  "remove_source i st = st\<lparr>sources := filter (\<lambda>s. fst s \<noteq> i) (sources st)\<rparr>"

subsection \<open>EmulateX11WindowType\<close>

text \<open>Lines 193--198: the constructor.\<close>

definition new_EmulateX11WindowType :: "bool \<Rightarrow> EmulateX11WindowType" where
  "new_EmulateX11WindowType is_wayland_compositor =
     \<lparr>isX11 = (\<not> is_wayland_compositor), windowList = [], enableRefresh = True,
      emulator_wayland_client = False, idMap = None, idDestroy = None,
      switchWorkspaceId = None, showingId = None, hidingId = None,
      activate_window_ID = None\<rparr>"

text \<open>
  Lines 307--309 and 338: \<^verbatim>\<open>_refreshWindows\<close> itself. It attaches the idle callback only
  when no id is stored; the callback keeps the \<^verbatim>\<open>checkWorkspace\<close> of this call.
\<close>

definition refreshWindows :: "bool \<Rightarrow> state \<Rightarrow> state" where
  "refreshWindows checkWorkspace st =
     (if \<not> truthy (activate_window_ID (emulator st)) then
        (let (i, st1) = idle_add PRIORITY_LOW checkWorkspace st
         in st1\<lparr>emulator := (emulator st1)\<lparr>activate_window_ID := Some i\<rparr>\<rparr>)
      else st)"

text \<open>
  One call of a \<^verbatim>\<open>ManageWindow\<close> of window \<open>w\<close>, as the coordinator's state sees it: the
  call joins the trace; \<^verbatim>\<open>disconnect(id)\<close> removes the handler from the window;
  \<^verbatim>\<open>change_workspace\<close> puts the window on the active workspace; the callback is the closure
  of line 291, which calls \<^verbatim>\<open>_refreshWindows(true)\<close>. Signals the compositor emits in
  reaction to a call are events of their own and are not nested here.
\<close>

definition perform :: "nat \<Rightarrow> window_call \<Rightarrow> state \<Rightarrow> state" where
  "perform w c st =
     (let st1 = st\<lparr>calls := calls st @ [on_window w c]\<rparr>
      in case c of
           window_disconnect i \<Rightarrow>
             st1\<lparr>windows := (windows st1)
                   (w := (windows st1 w)
                      \<lparr>connections := filter (\<lambda>j. j \<noteq> i) (connections (windows st1 w))\<rparr>)\<rparr>
         | change_workspace \<Rightarrow>
             st1\<lparr>windows := (windows st1)(w := (windows st1 w)\<lparr>located_on_workspace := True\<rparr>)\<rparr>
         | changedStatusCB \<Rightarrow> refreshWindows True st1
         | _ \<Rightarrow> st1)"

primrec performs :: "nat \<Rightarrow> window_call list \<Rightarrow> state \<Rightarrow> state" where
  "performs w [] st = st"
| "performs w (c # cs) st = performs w cs (perform w c st)"

text \<open>Lines 200--207: \<^verbatim>\<open>set_wayland_client\<close>.\<close>

primrec set_client_loop :: "bool \<Rightarrow> nat list \<Rightarrow> state \<Rightarrow> state" where
  "set_client_loop client [] st = st"
| "set_client_loop client (w # ws) st =
     set_client_loop client ws
       (case customJS_ding (windows st w) of
          None \<Rightarrow> st
        | Some ding \<Rightarrow>
            st\<lparr>windows := (windows st)
                  (w := (windows st w)
                     \<lparr>customJS_ding := Some (ding\<lparr>wayland_client := client\<rparr>)\<rparr>)\<rparr>)"

definition set_wayland_client :: "bool \<Rightarrow> state \<Rightarrow> state" where
  "set_wayland_client client st =
     (let st1 = st\<lparr>emulator := (emulator st)\<lparr>emulator_wayland_client := client\<rparr>\<rparr>
      in set_client_loop client (windowList (emulator st1)) st1)"

text \<open>
  Lines 284--299: \<^verbatim>\<open>addWindow\<close>, on a window reference (an actor is first replaced by its
  window). The constructor of \<^verbatim>\<open>ManageWindow\<close> connects four handlers and decodes the
  title; then the window joins the list and the \<^verbatim>\<open>unmanaged\<close> handler is connected.
\<close>

definition addWindow :: "nat \<Rightarrow> state \<Rightarrow> state" where
  "addWindow w st =
     (if isX11 (emulator st) then st
      else
        (let (i1, st1) = window_connect w st;
             (i2, st2) = window_connect w st1;
             (i3, st3) = window_connect w st2;
             (i4, st4) = window_connect w st3;
             (ding, cs) = new_ManageWindow w (emulator_wayland_client (emulator st4))
                            [i1, i2, i3, i4] (get_title (windows st4 w));
             st5 = performs w cs st4;
             st6 = st5\<lparr>windows := (windows st5)(w := (windows st5 w)\<lparr>customJS_ding := Some ding\<rparr>)\<rparr>;
             st7 = st6\<lparr>emulator := (emulator st6)\<lparr>windowList := windowList (emulator st6) @ [w]\<rparr>\<rparr>;
             (i5, st8) = window_connect w st7
         in st8\<lparr>windows := (windows st8)
                  (w := (windows st8 w)\<lparr>customJS_ding := Some (ding\<lparr>unmanagedID := Some i5\<rparr>)\<rparr>)\<rparr>))"

text \<open>
  Lines 301--305: \<^verbatim>\<open>_clearWindow\<close>. Reading \<^verbatim>\<open>unmanagedID\<close> of a \<^verbatim>\<open>customJS_ding\<close> that is
  \<^verbatim>\<open>null\<close> throws. \<^verbatim>\<open>addWindow\<close> sets \<^verbatim>\<open>unmanagedID\<close> before any handler can run, so a record
  without it does not reach this method; the model gives that case the same error.
\<close>

definition clearWindow :: "nat \<Rightarrow> state \<Rightarrow> error + state" where
  "clearWindow w st =
     (case customJS_ding (windows st w) of
        None \<Rightarrow> Inl TypeError
      | Some ding \<Rightarrow>
          (case unmanagedID ding of
             None \<Rightarrow> Inl TypeError
           | Some u \<Rightarrow>
               (let st1 = perform w (window_disconnect u) st;
                    st2 = performs w (snd (disconnect ding)) st1
                in Inr (st2\<lparr>windows := (windows st2)
                              (w := (windows st2 w)\<lparr>customJS_ding := None\<rparr>)\<rparr>))))"

text \<open>Lines 310--313: the loop over \<^verbatim>\<open>this._windowList\<close> of the idle callback.\<close>

primrec refresh_loop :: "bool \<Rightarrow> nat list \<Rightarrow> state \<Rightarrow> error + state" where
  "refresh_loop checkWorkspace [] st = Inr st"
| "refresh_loop checkWorkspace (w # ws) st =
     (case customJS_ding (windows st w) of
        None \<Rightarrow> Inl TypeError
      | Some ding \<Rightarrow>
          refresh_loop checkWorkspace ws
            (performs w (refreshState checkWorkspace (located_on_workspace (windows st w)) ding)
               st))"

text \<open>
  Lines 316--332: the two loops that activate a window. Each stops at the first window
  that passes its test; the first also reports \<^verbatim>\<open>anyActive\<close>.
\<close>

definition top_test :: "state \<Rightarrow> nat \<Rightarrow> bool" where
  "top_test st w =
     ((case customJS_ding (windows st w) of None \<Rightarrow> True | Some ding \<Rightarrow> \<not> keepAtBottom ding) \<and>
      \<not> minimized (windows st w))"

definition bottom_test :: "state \<Rightarrow> nat \<Rightarrow> bool" where
  "bottom_test st w =
     ((case customJS_ding (windows st w) of None \<Rightarrow> False | Some ding \<Rightarrow> keepAtBottom ding) \<and>
      \<not> minimized (windows st w))"

primrec activate_loop :: "(nat \<Rightarrow> bool) \<Rightarrow> nat list \<Rightarrow> state \<Rightarrow> bool \<times> state" where
  "activate_loop test [] st = (False, st)"
| "activate_loop test (w # ws) st =
     (if test w then (True, st\<lparr>calls := calls st @ [activateWindow w]\<rparr>)
      else activate_loop test ws st)"

definition activate_top_most :: "state \<Rightarrow> state" where
  "activate_top_most st =
     (let (anyActive, st1) = activate_loop (top_test st) (tab_list st) st
      in if \<not> anyActive then
           snd (activate_loop (bottom_test st1) (windowList (emulator st1)) st1)
         else st1)"

text \<open>Lines 309--337: the idle callback that \<^verbatim>\<open>_refreshWindows(checkWorkspace)\<close> attached.\<close>

definition idle_callback :: "bool \<Rightarrow> state \<Rightarrow> error + state" where
  "idle_callback checkWorkspace st =
     (case (if enableRefresh (emulator st) then
              (case refresh_loop checkWorkspace (windowList (emulator st)) st of
                 Inl e \<Rightarrow> Inl e
               | Inr st1 \<Rightarrow> Inr (if checkWorkspace then activate_top_most st1 else st1))
            else Inr st) of
        Inl e \<Rightarrow> Inl e
      | Inr st2 \<Rightarrow> Inr (st2\<lparr>emulator := (emulator st2)\<lparr>activate_window_ID := None\<rparr>\<rparr>))"

text \<open>
  The main loop when it is idle: it runs the callback of each source that is attached at
  that moment, and removes the source once its callback has returned
  \<^verbatim>\<open>GLib.SOURCE_REMOVE\<close>, which the callback above always does.
\<close>

primrec dispatch :: "(nat \<times> priority \<times> bool) list \<Rightarrow> state \<Rightarrow> error + state" where
  "dispatch [] st = Inr st"
| "dispatch (s # ss) st =
     (case idle_callback (snd (snd s)) st of
        Inl e \<Rightarrow> Inl e
      | Inr st1 \<Rightarrow> dispatch ss (remove_source (fst s) st1))"

definition main_loop_idle :: "state \<Rightarrow> error + state" where
  "main_loop_idle st = dispatch (sources st) st"

text \<open>Lines 209--246: \<^verbatim>\<open>enable()\<close>, and the five handlers it connects.\<close>

definition enable :: "state \<Rightarrow> state" where
  "enable st =
     (if isX11 (emulator st) then st
      else
        (let (i1, st1) = window_manager_connect map_signal st;
             (i2, st2) = window_manager_connect destroy_signal st1;
             (i3, st3) = window_manager_connect switch_workspace_signal st2;
             (i4, st4) = overview_connect showing_signal st3;
             (i5, st5) = overview_connect hiding_signal st4
         in st5\<lparr>emulator := (emulator st5)\<lparr>idMap := Some i1, idDestroy := Some i2,
                   switchWorkspaceId := Some i3, showingId := Some i4, hidingId := Some i5\<rparr>\<rparr>))"

text \<open>\<open>belongs\<close> is what \<^verbatim>\<open>query_window_belongs_to(window)\<close> returns.\<close>

definition on_map :: "nat \<Rightarrow> bool \<Rightarrow> state \<Rightarrow> state" where
  "on_map w belongs st =
     refreshWindows False
       (if emulator_wayland_client (emulator st) \<and> belongs then addWindow w st else st)"

text \<open>\<open>is_menu\<close> is the test \<^verbatim>\<open>window && window.get_window_type() >= DROPDOWN_MENU\<close>.\<close>

definition on_destroy :: "bool \<Rightarrow> state \<Rightarrow> state" where
  "on_destroy is_menu st = (if is_menu then st else refreshWindows True st)"

definition on_switch_workspace :: "state \<Rightarrow> state" where
  "on_switch_workspace st = refreshWindows True st"

definition on_showing :: "state \<Rightarrow> state" where
  "on_showing st = st\<lparr>emulator := (emulator st)\<lparr>enableRefresh := False\<rparr>\<rparr>"

definition on_hiding :: "state \<Rightarrow> state" where
  "on_hiding st = refreshWindows True (st\<lparr>emulator := (emulator st)\<lparr>enableRefresh := True\<rparr>\<rparr>)"

text \<open>Lines 295--298: the handler of \<^verbatim>\<open>unmanaged\<close> that \<^verbatim>\<open>addWindow\<close> connects.\<close>

definition on_unmanaged :: "nat \<Rightarrow> state \<Rightarrow> error + state" where
  "on_unmanaged w st =
     (case clearWindow w st of
        Inl e \<Rightarrow> Inl e
      | Inr st1 \<Rightarrow>
          Inr (st1\<lparr>emulator := (emulator st1)
                 \<lparr>windowList := filter (\<lambda>item. item \<noteq> w) (windowList (emulator st1))\<rparr>\<rparr>))"

text \<open>
  Lines 248--282: \<^verbatim>\<open>disable()\<close>, in its parts: the pending callback (252--255), the
  loop over the windows (256--258), and one definition for each of the five tests of
  lines 262--281.
\<close>

definition cancel_refresh :: "state \<Rightarrow> state" where
  "cancel_refresh st =
     (if truthy (activate_window_ID (emulator st)) then
        (let i = the (activate_window_ID (emulator st));
             st1 = remove_source i (st\<lparr>calls := calls st @ [source_remove i]\<rparr>)
         in st1\<lparr>emulator := (emulator st1)\<lparr>activate_window_ID := None\<rparr>\<rparr>)
      else st)"

primrec clear_loop :: "nat list \<Rightarrow> state \<Rightarrow> error + state" where
  "clear_loop [] st = Inr st"
| "clear_loop (w # ws) st =
     (case clearWindow w st of Inl e \<Rightarrow> Inl e | Inr st1 \<Rightarrow> clear_loop ws st1)"

definition window_manager_disconnect_call :: "nat \<Rightarrow> state \<Rightarrow> state" where
  "window_manager_disconnect_call i st =
     st\<lparr>calls := calls st @ [window_manager_disconnect i],
        window_manager := filter (\<lambda>h. fst h \<noteq> i) (window_manager st)\<rparr>"

definition overview_disconnect_call :: "nat \<Rightarrow> state \<Rightarrow> state" where
  "overview_disconnect_call i st =
     st\<lparr>calls := calls st @ [overview_disconnect i],
        overview := filter (\<lambda>h. fst h \<noteq> i) (overview st)\<rparr>"

definition disconnect_idMap :: "state \<Rightarrow> state" where
  "disconnect_idMap st =
     (if truthy (idMap (emulator st)) then
        (let st1 = window_manager_disconnect_call (the (idMap (emulator st))) st
         in st1\<lparr>emulator := (emulator st1)\<lparr>idMap := None\<rparr>\<rparr>)
      else st)"

definition disconnect_idDestroy :: "state \<Rightarrow> state" where
  "disconnect_idDestroy st =
     (if truthy (idDestroy (emulator st)) then
        (let st1 = window_manager_disconnect_call (the (idDestroy (emulator st))) st
         in st1\<lparr>emulator := (emulator st1)\<lparr>idDestroy := None\<rparr>\<rparr>)
      else st)"

definition disconnect_switchWorkspaceId :: "state \<Rightarrow> state" where
  "disconnect_switchWorkspaceId st =
     (if truthy (switchWorkspaceId (emulator st)) then
        (let st1 = window_manager_disconnect_call (the (switchWorkspaceId (emulator st))) st
         in st1\<lparr>emulator := (emulator st1)\<lparr>switchWorkspaceId := None\<rparr>\<rparr>)
      else st)"

definition disconnect_showingId :: "state \<Rightarrow> state" where
  "disconnect_showingId st =
     (if truthy (showingId (emulator st)) then
        (let st1 = overview_disconnect_call (the (showingId (emulator st))) st
         in st1\<lparr>emulator := (emulator st1)\<lparr>showingId := None\<rparr>\<rparr>)
      else st)"

definition disconnect_hidingId :: "state \<Rightarrow> state" where
  "disconnect_hidingId st =
     (if truthy (hidingId (emulator st)) then
        (let st1 = overview_disconnect_call (the (hidingId (emulator st))) st
         in st1\<lparr>emulator := (emulator st1)\<lparr>hidingId := None\<rparr>\<rparr>)
      else st)"

definition disconnect_signals :: "state \<Rightarrow> state" where
  "disconnect_signals st =
     disconnect_hidingId
       (disconnect_showingId
          (disconnect_switchWorkspaceId (disconnect_idDestroy (disconnect_idMap st))))"

definition disable :: "state \<Rightarrow> error + state" where
  "disable st =
     (if isX11 (emulator st) then Inr st
      else
        (let st1 = cancel_refresh st
         in case clear_loop (windowList (emulator st1)) st1 of
              Inl e \<Rightarrow> Inl e
            | Inr st2 \<Rightarrow>
                Inr (disconnect_signals (st2\<lparr>emulator := (emulator st2)\<lparr>windowList := []\<rparr>\<rparr>))))"

subsection \<open>Predicates of the statements about the decoder\<close>

text \<open>
  The coordinate field as the specification words it: the text just after the marker up
  to the next semicolon at or after the marker, or to the end of the title. It is used
  only to compare with \<^term>\<open>coords_of\<close>, which is what the source computes.
\<close>

definition spec_coordinate_field :: "string \<Rightarrow> int \<Rightarrow> string" where
  "spec_coordinate_field title pos =
     takeWhile (\<lambda>c. c \<noteq> CHR '';'') (drop (nat (pos + 2)) title)"

text \<open>The two letters of the flag scan that exclude each other.\<close>

definition isBT :: "char \<Rightarrow> bool" where
  "isBT c = (c = CHR ''B'' \<or> c = CHR ''T'')"

text \<open>Two \<^verbatim>\<open>ManageWindow\<close> objects whose decoded fields agree.\<close>

definition same_fields :: "ManageWindow \<Rightarrow> ManageWindow \<Rightarrow> bool" where
  "same_fields a b =
     (this_x a = this_x b \<and> this_y a = this_y b \<and> keepAtBottom a = keepAtBottom b \<and>
      keepAtTop a = keepAtTop b \<and> showInAllDesktops a = showInAllDesktops b \<and>
      hideFromWindowList a = hideFromWindowList b \<and> fixed a = fixed b)"

subsection \<open>Predicates of the statements about the coordinator\<close>

text \<open>
  The windows the first activation loop skips, in the words of the specification:
  minimized windows and windows whose record is pinned to the bottom. And the windows the
  fallback looks for: bottom-pinned and not minimized.
\<close>

definition skipped :: "state \<Rightarrow> nat \<Rightarrow> bool" where
  "skipped st w =
     (minimized (windows st w) \<or>
      (case customJS_ding (windows st w) of None \<Rightarrow> False | Some ding \<Rightarrow> keepAtBottom ding))"

definition pinned_bottom_shown :: "state \<Rightarrow> nat \<Rightarrow> bool" where
  "pinned_bottom_shown st w =
     (\<not> minimized (windows st w) \<and>
      (case customJS_ding (windows st w) of None \<Rightarrow> False | Some ding \<Rightarrow> keepAtBottom ding))"

text \<open>
  A well-formed state of a coordinator, predicate \<open>consistent\<close>. It has six parts:
  the compositor is Wayland; each window of the list is in it once; each window of the
  list carries a record with its \<^verbatim>\<open>unmanagedID\<close>, and the handlers connected on it are among
  those of its record (predicate \<open>managed\<close>); the handlers connected on the window manager
  and on the overview are exactly those whose ids the object holds; the only source
  attached is the pending callback whose id the object holds; and no id the object
  holds is \<open>0\<close>.

  This is the state one \<^verbatim>\<open>enable()\<close> and the signals that follow it leave. A second
  \<^verbatim>\<open>enable()\<close> with no \<^verbatim>\<open>disable()\<close> between the two overwrites the five ids, so the handlers
  of the first call are connected and the object no longer holds their ids: that state
  is not well-formed (\<open>twice_state\<close> below).
\<close>

definition held :: "nat option \<Rightarrow> 'a \<Rightarrow> (nat \<times> 'a) list" where
  "held v sig = (case v of None \<Rightarrow> [] | Some i \<Rightarrow> [(i, sig)])"

definition managed :: "state \<Rightarrow> nat \<Rightarrow> bool" where
  "managed st w =
     (case customJS_ding (windows st w) of
        None \<Rightarrow> False
      | Some ding \<Rightarrow>
          (case unmanagedID ding of
             None \<Rightarrow> False
           | Some u \<Rightarrow> set (connections (windows st w)) \<subseteq> set (u # signalIDs ding)))"

definition consistent :: "state \<Rightarrow> bool" where
  "consistent st =
     (let e = emulator st in
      \<not> isX11 e \<and> distinct (windowList e) \<and> list_all (managed st) (windowList e) \<and>
      window_manager st =
        held (idMap e) map_signal @ held (idDestroy e) destroy_signal @
        held (switchWorkspaceId e) switch_workspace_signal \<and>
      overview st = held (showingId e) showing_signal @ held (hidingId e) hiding_signal \<and>
      map fst (sources st) = (case activate_window_ID e of None \<Rightarrow> [] | Some i \<Rightarrow> [i]) \<and>
      Some 0 \<notin> set [idMap e, idDestroy e, switchWorkspaceId e, showingId e, hidingId e,
                     activate_window_ID e])"

definition is_source_remove :: "call \<Rightarrow> bool" where
  "is_source_remove c = (case c of source_remove i \<Rightarrow> True | _ \<Rightarrow> False)"

text \<open>The calls \<^verbatim>\<open>_clearWindow\<close> makes for a window with record \<open>ding\<close>.\<close>

definition teardown_calls :: "nat \<Rightarrow> ManageWindow \<Rightarrow> nat \<Rightarrow> call list" where
  "teardown_calls w ding u =
     map (\<lambda>i. on_window w (window_disconnect i)) (u # signalIDs ding) @
     (if keepAtTop ding = Some True then [on_window w unmake_above] else [])"

text \<open>Two states that differ at most in their windows and their trace.\<close>

definition same_tables :: "state \<Rightarrow> state \<Rightarrow> bool" where
  "same_tables st st' =
     (emulator st' = emulator st \<and> sources st' = sources st \<and>
      window_manager st' = window_manager st \<and> overview st' = overview st \<and>
      handler_ids st' = handler_ids st \<and> source_ids st' = source_ids st \<and>
      tab_list st' = tab_list st)"

subsection \<open>Example states\<close>

text \<open>
  \<open>fresh_state\<close>: a coordinator just constructed on a Wayland compositor, with three
  windows on the active workspace: window 1 of the trusted client, titled
  \<^verbatim>\<open>"@!0,0;BDH"\<close>, above window 2, a terminal, above window 3, a minimized editor.

  \<open>desktop_state\<close>: the state after \<^verbatim>\<open>set_wayland_client\<close>, \<^verbatim>\<open>enable()\<close> and the \<^verbatim>\<open>map\<close> signals
  of the three windows (lemma \<open>desktop_state_reached\<close> below). Window 1 is managed, pinned
  to the bottom, and the refresh its decoding asked for is pending.

  \<open>lone_state\<close>: the same with window 1 alone on the active workspace.

  \<open>twice_state\<close>: the state after \<^verbatim>\<open>set_wayland_client\<close> and two calls of \<^verbatim>\<open>enable()\<close> in a row
  (lemma \<open>twice_state_reached\<close> below). Ten handlers are connected and the object holds
  the ids of the last five.
\<close>

definition plain_window :: MetaWindow where
  "plain_window =
     \<lparr>get_title = None, minimized = False, located_on_workspace = True,
      customJS_ding = None, connections = []\<rparr>"

definition fresh_state :: state where
  "fresh_state =
     \<lparr>emulator = new_EmulateX11WindowType True,
      windows = (\<lambda>_. plain_window)
        (1 := plain_window\<lparr>get_title := Some ''@!0,0;BDH''\<rparr>,
         2 := plain_window\<lparr>get_title := Some ''Terminal''\<rparr>,
         3 := plain_window\<lparr>get_title := Some ''Editor'', minimized := True\<rparr>),
      window_manager = [], overview = [], handler_ids = 0, sources = [], source_ids = 0,
      tab_list = [1, 2, 3], calls = []\<rparr>"

definition desktop_ding :: ManageWindow where
  "desktop_ding =
     \<lparr>wayland_client = True, window = Some 1, signalIDs = [6, 7, 8, 9],
      this_x = Some (Num 0), this_y = Some (Num 0), keepAtBottom = True,
      keepAtTop = Some False, showInAllDesktops = True, hideFromWindowList = True,
      fixed = False, unmanagedID = Some 10\<rparr>"

definition desktop_state :: state where
  "desktop_state =
     \<lparr>emulator =
        \<lparr>isX11 = False, windowList = [1], enableRefresh = True,
         emulator_wayland_client = True, idMap = Some 1, idDestroy = Some 2,
         switchWorkspaceId = Some 3, showingId = Some 4, hidingId = Some 5,
         activate_window_ID = Some 1\<rparr>,
      windows = (\<lambda>_. plain_window)
        (2 := plain_window\<lparr>get_title := Some ''Terminal''\<rparr>,
         3 := plain_window\<lparr>get_title := Some ''Editor'', minimized := True\<rparr>,
         1 := \<lparr>get_title = Some ''@!0,0;BDH'', minimized = False,
                located_on_workspace = True, customJS_ding = Some desktop_ding,
                connections = [6, 7, 8, 9, 10]\<rparr>),
      window_manager = [(1, map_signal), (2, destroy_signal), (3, switch_workspace_signal)],
      overview = [(4, showing_signal), (5, hiding_signal)],
      handler_ids = 10,
      sources = [(1, PRIORITY_LOW, True)], source_ids = 1,
      tab_list = [1, 2, 3],
      calls = [on_window 1 hide_from_window_list, on_window 1 unmake_above,
               on_window 1 lower, on_window 1 changedStatusCB]\<rparr>"

definition lone_state :: state where
  "lone_state = desktop_state\<lparr>tab_list := [1]\<rparr>"

definition twice_state :: state where
  "twice_state =
     fresh_state\<lparr>emulator := (new_EmulateX11WindowType True)
         \<lparr>emulator_wayland_client := True, idMap := Some 6, idDestroy := Some 7,
          switchWorkspaceId := Some 8, showingId := Some 9, hidingId := Some 10\<rparr>,
       window_manager := [(1, map_signal), (2, destroy_signal), (3, switch_workspace_signal),
                          (6, map_signal), (7, destroy_signal), (8, switch_workspace_signal)],
       overview := [(4, showing_signal), (5, hiding_signal), (9, showing_signal),
                    (10, hiding_signal)],
       handler_ids := 10\<rparr>"

section \<open>The decoder\<close>

subsection \<open>Searching\<close>

lemma take_eq_prefix: "(take (length pat) s = pat) = prefix pat s"
  by (metis prefix_def append_eq_conv_conj take_is_prefix)

lemma search_at_none: "0 \<le> i \<Longrightarrow> (search_at pat i s = - 1) = (\<not> sublist pat s)"
proof (induction s arbitrary: i)
  case Nil
  then show ?case by auto
next
  case (Cons c cs)
  have "0 \<le> i + 1" using Cons.prems by simp
  from Cons.IH [OF this] show ?case
    using Cons.prems by (simp add: take_eq_prefix sublist_Cons_right del: take_Suc_Cons)
qed

lemma search_none: "(search s pat = - 1) = (\<not> sublist pat s)"
  by (simp add: search_def search_at_none)

subsection \<open>The decoded fields do not depend on the object's earlier state\<close>

lemma same_fields_flag_case: "same_fields a b \<Longrightarrow> same_fields (flag_case c a) (flag_case c b)"
  by (simp add: same_fields_def flag_case_def)

lemma same_fields_flag_loop: "same_fields a b \<Longrightarrow> same_fields (flag_loop cs a) (flag_loop cs b)"
  by (induction cs arbitrary: a b) (simp_all add: same_fields_flag_case)

lemma same_fields_parse: "same_fields (parseTitle_fields title a) (parseTitle_fields title b)"
proof (cases title)
  case None
  then show ?thesis by (simp add: parseTitle_fields_def same_fields_def)
next
  case (Some t)
  show ?thesis
  proof (cases "search (trailing_space_title t) ''@!'' = - 1")
    case True
    with Some show ?thesis by (simp add: parseTitle_fields_def same_fields_def)
  next
    case False
    with Some show ?thesis
      by (simp add: parseTitle_fields_def Let_def)
        (rule same_fields_flag_loop, simp add: same_fields_def)
  qed
qed

lemma decode_indep: "decode title a = decode title b"
  using same_fields_parse [of title a b]
  by (simp add: decode_def parseTitle_def directive_of_def same_fields_def Let_def)

subsection \<open>Titles without a marker\<close>

lemma directive_reset:
  "directive_of (this\<lparr>this_x := None, this_y := None, keepAtBottom := False,
       keepAtTop := Some False, showInAllDesktops := False, hideFromWindowList := False,
       fixed := False\<rparr>) = empty_Directive"
  by (simp add: directive_of_def empty_Directive_def)

lemma trailing_space_title_id:
  "\<not> (title \<noteq> [] \<and> last title = CHR '' '') \<Longrightarrow> trailing_space_title title = title"
  by (auto simp: trailing_space_title_def last_conv_nth)

text \<open>
  Claim C3, as stated: every title without the marker \<^verbatim>\<open>@!\<close> decodes to the empty
  Directive. It fails on the title \<^verbatim>\<open>"x "\<close>: the title has no marker, but it ends in a
  space, so lines 92--98 replace it by \<^verbatim>\<open>"@!H"\<close> and the decoded Directive hides the
  window from the window list.
\<close>

theorem C3_counterexample:
  "\<not> sublist ''@!'' ''x '' \<and>
   decode (Some ''x '') (new_fields 1 True [1, 2, 3, 4]) \<noteq> empty_Directive"
  by code_simp

text \<open>
  Claim C3, amended: every title that does not contain the marker \<^verbatim>\<open>@!\<close> and does not
  end in a space decodes to the empty Directive: all five flags false and no position.
\<close>

theorem C3_no_marker_empty:
  "\<not> sublist ''@!'' title \<Longrightarrow> \<not> (title \<noteq> [] \<and> last title = CHR '' '') \<Longrightarrow>
   decode (Some title) this = empty_Directive"
  by (simp add: decode_def parseTitle_def parseTitle_fields_def trailing_space_title_id
      search_none directive_reset Let_def)

theorem C3_no_marker_empty_witness:
  "\<not> sublist ''@!'' ''hello'' \<and> \<not> (''hello'' \<noteq> [] \<and> last ''hello'' = CHR '' '') \<and>
   decode (Some ''hello'') (new_fields 1 True [1, 2, 3, 4]) = empty_Directive"
proof -
  have h1: "\<not> sublist ''@!'' ''hello''" by code_simp
  have h2: "\<not> (''hello'' \<noteq> [] \<and> last ''hello'' = CHR '' '')" by simp
  show ?thesis using h1 h2 C3_no_marker_empty [OF h1 h2] by blast
qed

subsection \<open>The flag scan\<close>

lemma flag_loop_bottom:
  "keepAtBottom (flag_loop cs this) =
     (if filter isBT cs = [] then keepAtBottom this else last (filter isBT cs) = CHR ''B'')"
  by (induction cs arbitrary: this) (auto simp: flag_case_def isBT_def)

lemma flag_loop_top:
  "keepAtTop (flag_loop cs this) =
     (if filter isBT cs = [] then keepAtTop this
      else Some (last (filter isBT cs) = CHR ''T''))"
  by (induction cs arbitrary: this) (auto simp: flag_case_def isBT_def)

lemma flag_loop_exclusive:
  "\<not> (keepAtBottom this \<and> keepAtTop this = Some True) \<Longrightarrow> keepAtBottom (flag_loop cs this) \<Longrightarrow>
   keepAtTop (flag_loop cs this) \<noteq> Some True"
  by (induction cs arbitrary: this) (auto simp: flag_case_def split: if_splits)

lemma parseTitle_fields_exclusive:
  "\<not> (keepAtBottom (parseTitle_fields title this) \<and>
      keepAtTop (parseTitle_fields title this) = Some True)"
  by (auto simp: parseTitle_fields_def Let_def flag_loop_exclusive split: option.splits)

text \<open>
  Claim C5: for every title, \<^verbatim>\<open>null\<close> and malformed ones included, \<open>pinBottom\<close> and
  \<open>pinTop\<close> are never both true after decoding; and when the scanned flag field (the
  upper-cased text after the marker) holds a \<^verbatim>\<open>B\<close> or a \<^verbatim>\<open>T\<close>, the last of them decides:
  \<open>pinBottom\<close> is true exactly when it is a \<^verbatim>\<open>B\<close>, \<open>pinTop\<close> exactly when it is a \<^verbatim>\<open>T\<close>.
\<close>

theorem C5_pins_exclusive_last_wins:
  "\<not> (pinBottom (decode title this) \<and> pinTop (decode title this)) \<and>
   (\<forall>t pos bt. title = Some t \<and> pos = search (trailing_space_title t) ''@!'' \<and> pos \<noteq> - 1 \<and>
       bt = filter isBT (extra_chars_of (trailing_space_title t) pos) \<and> bt \<noteq> [] \<longrightarrow>
       pinBottom (decode title this) = (last bt = CHR ''B'') \<and>
       pinTop (decode title this) = (last bt = CHR ''T''))"
proof -
  have excl: "\<not> (pinBottom (decode title this) \<and> pinTop (decode title this))"
    using parseTitle_fields_exclusive [of title this]
    by (simp add: decode_def parseTitle_def directive_of_def Let_def)
  have lastwins: "pinBottom (decode (Some t) this) = (last bt = CHR ''B'') \<and>
       pinTop (decode (Some t) this) = (last bt = CHR ''T'')"
    if "search (trailing_space_title t) ''@!'' \<noteq> - 1"
      and "bt = filter isBT (extra_chars_of (trailing_space_title t)
                 (search (trailing_space_title t) ''@!''))"
      and "bt \<noteq> []" for t bt
    using that
    by (simp add: decode_def parseTitle_def directive_of_def parseTitle_fields_def Let_def
        flag_loop_bottom flag_loop_top)
  from excl lastwins show ?thesis by blast
qed

theorem C5_pins_exclusive_last_wins_witness:
  "search (trailing_space_title ''@!5,5TBH'') ''@!'' = 0 \<and>
   filter isBT (extra_chars_of (trailing_space_title ''@!5,5TBH'') 0) = ''TB'' \<and>
   pinBottom (decode (Some ''@!5,5TBH'') (new_fields 1 True [1, 2, 3, 4])) \<and>
   \<not> pinTop (decode (Some ''@!5,5TBH'') (new_fields 1 True [1, 2, 3, 4]))"
proof -
  have p: "search (trailing_space_title ''@!5,5TBH'') ''@!'' = 0" by code_simp
  have f: "filter isBT (extra_chars_of (trailing_space_title ''@!5,5TBH'') 0) = ''TB''"
    by code_simp
  show ?thesis
    using p f
      C5_pins_exclusive_last_wins [of "Some ''@!5,5TBH''" "new_fields 1 True [1, 2, 3, 4]"]
    by simp
qed

subsection \<open>Titles that end in spaces\<close>

lemma trailing_one:
  "\<not> (u \<noteq> [] \<and> last u = CHR '' '') \<Longrightarrow> trailing_space_title (u @ '' '') = ''@!H''"
  by (cases u rule: rev_cases) (auto simp: trailing_space_title_def nth_append)

lemma trailing_two: "trailing_space_title (u @ ''  '') = ''@!HTD''"
  by (auto simp: trailing_space_title_def nth_append)

lemma parseTitle_fields_trailing:
  "trailing_space_title t = trailing_space_title t' \<Longrightarrow>
   parseTitle_fields (Some t) this = parseTitle_fields (Some t') this"
  by (simp add: parseTitle_fields_def)

lemma decode_trailing:
  "trailing_space_title t = trailing_space_title t' \<Longrightarrow>
   decode (Some t) this = decode (Some t') this'"
  using decode_indep [of "Some t'" this this'] parseTitle_fields_trailing [of t t' this]
  by (simp add: decode_def parseTitle_def Let_def)

text \<open>
  Claim C6: a title that ends in exactly one space (a space preceded by nothing or by
  another character) decodes to the Directive of the literal title \<^verbatim>\<open>"@!H"\<close>, and a title
  that ends in two or more spaces decodes to the Directive of \<^verbatim>\<open>"@!HTD"\<close>, whatever the
  state of the two objects that decode them.
\<close>

theorem C6_trailing_spaces:
  "((\<exists>u. t = u @ '' '' \<and> \<not> (u \<noteq> [] \<and> last u = CHR '' '')) \<longrightarrow>
      decode (Some t) this = decode (Some ''@!H'') this') \<and>
   ((\<exists>u. t = u @ ''  '') \<longrightarrow> decode (Some t) this = decode (Some ''@!HTD'') this')"
proof -
  have H: "trailing_space_title ''@!H'' = ''@!H''" by (simp add: trailing_space_title_def)
  have HTD: "trailing_space_title ''@!HTD'' = ''@!HTD''"
    by (simp add: trailing_space_title_def)
  have one: "trailing_space_title t = trailing_space_title ''@!H''"
    if "t = u @ '' ''" and "\<not> (u \<noteq> [] \<and> last u = CHR '' '')" for u
    using that trailing_one [of u] H by simp
  have two: "trailing_space_title t = trailing_space_title ''@!HTD''" if "t = u @ ''  ''" for u
    using that trailing_two [of u] HTD by simp
  show ?thesis
    using one two by (blast intro: decode_trailing)
qed

theorem C6_trailing_spaces_witness:
  "decode (Some ''Desktop '') (new_fields 1 True [1, 2, 3, 4]) =
     decode (Some ''@!H'') (new_fields 2 False []) \<and>
   decode (Some ''Desktop  '') (new_fields 1 True [1, 2, 3, 4]) =
     decode (Some ''@!HTD'') (new_fields 2 False [])"
proof -
  have a: "\<exists>u. ''Desktop '' = u @ '' '' \<and> \<not> (u \<noteq> [] \<and> last u = CHR '' '')"
    by (rule exI [of _ "''Desktop''"]) simp
  have b: "\<exists>u. ''Desktop  '' = u @ ''  ''"
    by (rule exI [of _ "''Desktop''"]) simp
  show ?thesis
    using a b
      C6_trailing_spaces [of "''Desktop ''" "new_fields 1 True [1, 2, 3, 4]"
        "new_fields 2 False []"]
      C6_trailing_spaces [of "''Desktop  ''" "new_fields 1 True [1, 2, 3, 4]"
        "new_fields 2 False []"]
    by blast
qed

subsection \<open>Concrete titles\<close>

text \<open>
  Claim C8, as stated: \<^verbatim>\<open>"@!10,20;BH"\<close> decodes to position (10,20), \<open>pinBottom\<close> true and
  every other flag false. It fails: the flag scan of lines 115--136 runs over the whole
  text after the marker, reads the \<^verbatim>\<open>H\<close>, and sets \<^verbatim>\<open>_hideFromWindowList\<close>.
\<close>

theorem C8_counterexample:
  "decode (Some ''@!10,20;BH'') (new_fields 1 True [1, 2, 3, 4]) \<noteq>
     \<lparr>position = Some (Num 10, Num 20), pinBottom = True, pinTop = False,
      showOnAllWorkspaces = False, hideFromWindowList_flag = False, fixedPosition = False\<rparr>"
  by code_simp

text \<open>
  Claim C8, amended: \<^verbatim>\<open>"@!10,20;BH"\<close> decodes to position (10,20), \<open>pinBottom\<close> true,
  \<open>hideFromWindowList\<close> true, and \<open>pinTop\<close>, \<open>showOnAllWorkspaces\<close> and \<open>fixedPosition\<close>
  false.
\<close>

theorem C8_decode_example:
  "decode (Some ''@!10,20;BH'') this =
     \<lparr>position = Some (Num 10, Num 20), pinBottom = True, pinTop = False,
      showOnAllWorkspaces = False, hideFromWindowList_flag = True, fixedPosition = False\<rparr>"
proof -
  have "decode (Some ''@!10,20;BH'') (new_fields 0 False []) =
     \<lparr>position = Some (Num 10, Num 20), pinBottom = True, pinTop = False,
      showOnAllWorkspaces = False, hideFromWindowList_flag = True, fixedPosition = False\<rparr>"
    by code_simp
  then show ?thesis
    using decode_indep [of "Some ''@!10,20;BH''" this "new_fields 0 False []"] by simp
qed

text \<open>
  The flag scan does not touch the coordinates, so after a title with a marker has been
  decoded neither coordinate is \<^verbatim>\<open>null\<close>, whether it parsed or not.
\<close>

lemma flag_loop_coordinates:
  "this_x (flag_loop cs this) = this_x this \<and> this_y (flag_loop cs this) = this_y this"
  by (induction cs arbitrary: this) (simp_all add: flag_case_def)

lemma marker_sets_coordinates:
  "sublist ''@!'' (trailing_space_title t) \<Longrightarrow>
   this_x (fst (parseTitle (Some t) this)) \<noteq> None \<and>
   this_y (fst (parseTitle (Some t) this)) \<noteq> None"
  by (simp add: parseTitle_def parseTitle_fields_def Let_def search_none flag_loop_coordinates)

text \<open>
  Claim C1 says that a coordinate that does not parse leaves the position \<^verbatim>\<open>null\<close> and
  that every position-based action is then skipped. On the title \<^verbatim>\<open>"@!F"\<close> the source
  does otherwise: \<^verbatim>\<open>parseInt\<close> returns \<^verbatim>\<open>NaN\<close> and does not throw, so \<^verbatim>\<open>_x\<close> and \<^verbatim>\<open>_y\<close> are
  \<^verbatim>\<open>NaN\<close>, the tests \<^verbatim>\<open>!== null\<close> of lines 51 and 158 hold, and \<^verbatim>\<open>move_frame\<close> is called
  with \<^verbatim>\<open>NaN\<close> both by \<^verbatim>\<open>_parseTitle()\<close> and by the \<^verbatim>\<open>position-changed\<close> handler. The flags are
  decoded as the claim says.
\<close>

theorem C1_unparsed_position_is_NaN:
  "parseTitle (Some ''@!F'') (new_fields 1 True [1, 2, 3, 4]) =
     ((new_fields 1 True [1, 2, 3, 4])\<lparr>this_x := Some NaN, this_y := Some NaN,
        keepAtTop := Some False, fixed := True\<rparr>,
      [show_in_window_list, unmake_above, move_frame NaN NaN, changedStatusCB]) \<and>
   on_position_changed (fst (parseTitle (Some ''@!F'') (new_fields 1 True [1, 2, 3, 4]))) =
     [move_frame NaN NaN]"
  by code_simp

subsection \<open>The coordinate field\<close>

lemma search_at_char:
  "search_at [c] i s =
     (if c \<in> set s then i + int (length (takeWhile (\<lambda>x. x \<noteq> c) s)) else - 1)"
  by (induction s arbitrary: i) auto

lemma search_at_bounds:
  "search_at pat i s \<noteq> - 1 \<Longrightarrow> 0 \<le> i \<Longrightarrow>
   i \<le> search_at pat i s \<and> search_at pat i s - i + int (length pat) \<le> int (length s)"
proof (induction s arbitrary: i)
  case Nil
  then show ?case by (auto split: if_splits)
next
  case (Cons x xs)
  show ?case
  proof (cases "take (length pat) (x # xs) = pat")
    case True
    have "length (take (length pat) (x # xs)) = length pat"
      by (rule arg_cong [OF True])
    then have "length pat \<le> length (x # xs)"
      by (simp only: length_take)
    with True show ?thesis by simp
  next
    case False
    with Cons.prems have "search_at pat (i + 1) xs \<noteq> - 1" by simp
    from Cons.IH [OF this] Cons.prems False show ?thesis by simp
  qed
qed

lemma takeWhile_drop:
  "\<forall>x\<in>set (take n s). P x \<Longrightarrow>
   takeWhile P (drop n s) = take (length (takeWhile P s) - n) (drop n s)"
proof -
  assume a: "\<forall>x\<in>set (take n s). P x"
  have "takeWhile P s = takeWhile P (take n s @ drop n s)" by simp
  also have "\<dots> = take n s @ takeWhile P (drop n s)"
    using a by (simp only: takeWhile_append2)
  finally have "length (takeWhile P s) = length (take n s) + length (takeWhile P (drop n s))"
    by simp
  then have "length (takeWhile P (drop n s)) = length (takeWhile P s) - n \<or> length s < n"
    by auto
  then show ?thesis
    by (metis takeWhile_eq_take drop_all less_imp_le_nat take_Nil takeWhile.simps(1))
qed

lemma substring_in_range:
  "0 \<le> a \<Longrightarrow> a \<le> b \<Longrightarrow> b \<le> int (length s) \<Longrightarrow>
   substring s a b = take (nat (b - a)) (drop (nat a) s)"
  by (simp add: substring_def Let_def min_def max_def)

text \<open>
  When no semicolon stands before the end of the marker, the field the source parses is
  the field of the specification.
\<close>

lemma coords_of_spec:
  assumes pos: "pos = search title ''@!''" and found: "pos \<noteq> - 1"
    and before: "CHR '';'' \<notin> set (take (nat (pos + 2)) title)"
  shows "coords_of title pos = split CHR '','' (trim (spec_coordinate_field title pos))"
proof -
  from search_at_bounds [of "''@!''" 0 title] pos found
  have b: "0 \<le> pos" "pos + 2 \<le> int (length title)" by (simp_all add: search_def)
  let ?n = "nat (pos + 2)"
  have n: "int ?n = pos + 2" using b by simp
  have P: "\<forall>x\<in>set (take ?n title). x \<noteq> CHR '';''" using before by auto
  show ?thesis
  proof (cases "CHR '';'' \<in> set title")
    case False
    then have p2: "search title '';'' = - 1" by (simp add: search_def search_at_char)
    have "takeWhile (\<lambda>c. c \<noteq> CHR '';'') (drop ?n title) = drop ?n title"
      using False by (auto simp: takeWhile_eq_all_conv dest: in_set_dropD)
    then have eq: "spec_coordinate_field title pos = drop ?n title"
      by (simp only: spec_coordinate_field_def)
    have "substring title (pos + 2) (int (length title)) =
        take (nat (int (length title) - (pos + 2))) (drop ?n title)"
      using b by (intro substring_in_range) simp_all
    also have "nat (int (length title) - (pos + 2)) = length title - ?n"
      using b by linarith
    finally have "substring_from title (pos + 2) = drop ?n title"
      by (simp add: substring_from_def)
    then show ?thesis
      by (simp add: coords_of_def p2 eq)
  next
    case True
    let ?k = "length (takeWhile (\<lambda>x. x \<noteq> CHR '';'') title)"
    from True have p2: "search title '';'' = int ?k" by (simp add: search_def search_at_char)
    have "length (takeWhile (\<lambda>x. x \<noteq> CHR '';'') (take ?n title @ drop ?n title)) =
        length (take ?n title @ takeWhile (\<lambda>x. x \<noteq> CHR '';'') (drop ?n title))"
      by (rule arg_cong [where f = length], rule takeWhile_append2) (use P in auto)
    then have "?k = length (take ?n title) + length (takeWhile (\<lambda>x. x \<noteq> CHR '';'') (drop ?n title))"
      by (simp only: append_take_drop_id length_append)
    moreover have "length (take ?n title) = ?n" using b by simp
    ultimately have nk: "?n \<le> ?k" by linarith
    have kl: "?k \<le> length title" by (rule length_takeWhile_le)
    have "substring title (pos + 2) (int ?k) =
        take (nat (int ?k - (pos + 2))) (drop ?n title)"
      using b nk kl n by (intro substring_in_range) linarith+
    also have "nat (int ?k - (pos + 2)) = ?k - ?n" using b nk by linarith
    also have "take (?k - ?n) (drop ?n title) =
        takeWhile (\<lambda>x. x \<noteq> CHR '';'') (drop ?n title)"
      using takeWhile_drop [OF P] by simp
    finally have "substring title (pos + 2) (int ?k) = spec_coordinate_field title pos"
      by (simp only: spec_coordinate_field_def)
    then show ?thesis
      by (simp add: coords_of_def p2)
  qed
qed

text \<open>
  Claim C7 says that the coordinate field runs from just after the marker to the next
  semicolon at or after the marker. On the title \<^verbatim>\<open>"a;@!10,20"\<close> the marker is at index 2
  and no semicolon follows it, so the field of the claim is \<^verbatim>\<open>"10,20"\<close>. The source
  finds the semicolon at index 1 (the start index it passes to \<^verbatim>\<open>search\<close> is ignored),
  \<^verbatim>\<open>substring(4, 1)\<close> swaps its arguments, and the field parsed is \<^verbatim>\<open>";@!"\<close>: both
  coordinates are \<^verbatim>\<open>NaN\<close>.
\<close>

theorem C7_semicolon_before_marker:
  "search ''a;@!10,20'' ''@!'' = 2 \<and>
   split CHR '','' (trim (spec_coordinate_field ''a;@!10,20'' 2)) = [''10'', ''20''] \<and>
   coords_of ''a;@!10,20'' 2 = ['';@!''] \<and>
   this_x (fst (parseTitle (Some ''a;@!10,20'') (new_fields 1 True [1, 2, 3, 4]))) = Some NaN \<and>
   this_y (fst (parseTitle (Some ''a;@!10,20'') (new_fields 1 True [1, 2, 3, 4]))) = Some NaN"
  by code_simp

section \<open>The coordinator\<close>

subsection \<open>The example states are reached\<close>

lemma new_desktop_ding:
  "new_ManageWindow (Suc 0) True [6, 7, 8, 9] (Some ''@!0,0;BDH'') =
     (desktop_ding\<lparr>unmanagedID := None\<rparr>,
      [hide_from_window_list, unmake_above, lower, changedStatusCB])"
  by code_simp

lemma enabled_state:
  "enable (set_wayland_client True fresh_state) =
     fresh_state\<lparr>emulator := (new_EmulateX11WindowType True)
         \<lparr>emulator_wayland_client := True, idMap := Some 1, idDestroy := Some 2,
          switchWorkspaceId := Some 3, showingId := Some 4, hidingId := Some 5\<rparr>,
       window_manager := [(1, map_signal), (2, destroy_signal), (3, switch_workspace_signal)],
       overview := [(4, showing_signal), (5, hiding_signal)],
       handler_ids := 5\<rparr>"
  by (simp add: set_wayland_client_def enable_def fresh_state_def window_manager_connect_def
      overview_connect_def new_EmulateX11WindowType_def Let_def)

lemma desktop_state_reached:
  "on_map 3 False
     (on_map 2 False (on_map 1 True (enable (set_wayland_client True fresh_state)))) =
   desktop_state"
  unfolding enabled_state
  by (simp add: on_map_def addWindow_def fresh_state_def new_EmulateX11WindowType_def
      window_connect_def Let_def new_desktop_ding perform_def refreshWindows_def idle_add_def
      truthy_def desktop_state_def plain_window_def desktop_ding_def)

lemma consistent_desktop: "consistent desktop_state"
  by (simp add: consistent_def desktop_state_def managed_def held_def desktop_ding_def)

lemma consistent_desktop_showing: "consistent (on_showing desktop_state)"
  by (simp add: on_showing_def consistent_def desktop_state_def managed_def held_def
      desktop_ding_def)

subsection \<open>Coalescing of refresh triggers\<close>

lemma refreshWindows_pending:
  "truthy (activate_window_ID (emulator st)) \<Longrightarrow> refreshWindows b st = st"
  by (simp add: refreshWindows_def)

lemma refreshWindows_first:
  "\<not> truthy (activate_window_ID (emulator st)) \<Longrightarrow>
   refreshWindows b st =
     st\<lparr>source_ids := Suc (source_ids st),
        sources := sources st @ [(Suc (source_ids st), PRIORITY_LOW, b)],
        emulator := (emulator st)\<lparr>activate_window_ID := Some (Suc (source_ids st))\<rparr>\<rparr>"
  by (simp add: refreshWindows_def idle_add_def Let_def)

lemma fold_refreshWindows_pending:
  "truthy (activate_window_ID (emulator st)) \<Longrightarrow> fold refreshWindows bs st = st"
  by (induction bs) (simp_all add: refreshWindows_pending)

lemma fold_refreshWindows_first:
  "\<not> truthy (activate_window_ID (emulator st)) \<Longrightarrow>
   fold refreshWindows (b # bs) st = refreshWindows b st"
  by (simp add: fold_refreshWindows_pending refreshWindows_first truthy_def)

text \<open>The idle callback attaches no source and leaves the stored id cleared.\<close>

lemma perform_sources:
  "c \<noteq> changedStatusCB \<Longrightarrow>
   sources (perform w c st) = sources st \<and> emulator (perform w c st) = emulator st \<and>
   source_ids (perform w c st) = source_ids st"
  by (cases c) (simp_all add: perform_def)

lemma performs_sources:
  "changedStatusCB \<notin> set cs \<Longrightarrow>
   sources (performs w cs st) = sources st \<and> emulator (performs w cs st) = emulator st \<and>
   source_ids (performs w cs st) = source_ids st"
  by (induction cs arbitrary: st) (auto simp: perform_sources)

lemma refreshState_no_cb: "changedStatusCB \<notin> set (refreshState cw l d)"
  by (simp add: refreshState_def)

lemma refresh_loop_sources:
  "refresh_loop cw ws st = Inr st' \<Longrightarrow>
   sources st' = sources st \<and> emulator st' = emulator st \<and> source_ids st' = source_ids st"
  by (induction ws arbitrary: st)
    (auto simp: performs_sources refreshState_no_cb split: option.splits)

lemma activate_loop_sources:
  "sources (snd (activate_loop t ws st)) = sources st \<and>
   emulator (snd (activate_loop t ws st)) = emulator st \<and>
   source_ids (snd (activate_loop t ws st)) = source_ids st"
  by (induction ws) simp_all

lemma activate_top_most_sources:
  "sources (activate_top_most st) = sources st \<and>
   emulator (activate_top_most st) = emulator st \<and>
   source_ids (activate_top_most st) = source_ids st"
  by (simp add: activate_top_most_def Let_def case_prod_beta activate_loop_sources)

lemma idle_callback_sources:
  "idle_callback cw st = Inr st' \<Longrightarrow>
   sources st' = sources st \<and> activate_window_ID (emulator st') = None \<and>
   source_ids st' = source_ids st"
  by (auto simp: idle_callback_def activate_top_most_sources split: if_splits sum.splits
      dest!: refresh_loop_sources)

text \<open>
  Claim C2, as stated: of N triggers in one turn of the event loop, one pass runs, and
  it runs with \<^verbatim>\<open>checkWorkspace\<close> true whenever a trigger asked for it. The second part
  fails on the triggers \<^verbatim>\<open>_refreshWindows(false)\<close>, \<^verbatim>\<open>_refreshWindows(true)\<close>: the only source
  attached is the closure of the first call, which captured \<^verbatim>\<open>false\<close>; the second call
  finds the id set and returns. On \<open>fresh_state\<close> the idle phase then makes no call,
  where a pass with \<^verbatim>\<open>checkWorkspace\<close> true would have activated window 1.
\<close>

theorem C2_counterexample:
  "True \<in> set [False, True] \<and>
   sources (fold refreshWindows [False, True] fresh_state) = [(1, PRIORITY_LOW, False)] \<and>
   map_sum id calls (main_loop_idle (fold refreshWindows [False, True] fresh_state)) = Inr [] \<and>
   map_sum id calls (idle_callback True (fold refreshWindows [False, True] fresh_state)) =
     Inr [activateWindow 1]"
  by code_simp

text \<open>
  Claim C2, amended: when no pass is pending, N \<open>\<ge>\<close> 1 triggers in one turn of the event
  loop attach exactly one source, whose callback holds the \<^verbatim>\<open>checkWorkspace\<close> of the first
  trigger; the later triggers change nothing. The idle phase of the main loop then runs
  that one callback, and when it returns no source is left and the stored id is cleared.
\<close>

theorem C2_first_trigger_decides:
  "sources st = [] \<Longrightarrow> \<not> truthy (activate_window_ID (emulator st)) \<Longrightarrow>
   sources (fold refreshWindows (b # bs) st) = [(Suc (source_ids st), PRIORITY_LOW, b)] \<and>
   main_loop_idle (fold refreshWindows (b # bs) st) =
     (case idle_callback b (fold refreshWindows (b # bs) st) of
        Inl e \<Rightarrow> Inl e
      | Inr st' \<Rightarrow> Inr (remove_source (Suc (source_ids st)) st')) \<and>
   (\<forall>st'. main_loop_idle (fold refreshWindows (b # bs) st) = Inr st' \<longrightarrow>
      sources st' = [] \<and> activate_window_ID (emulator st') = None)"
proof -
  assume q: "sources st = []" "\<not> truthy (activate_window_ID (emulator st))"
  let ?st1 = "fold refreshWindows (b # bs) st"
  have "?st1 = refreshWindows b st"
    using q(2) by (rule fold_refreshWindows_first)
  then have one: "sources ?st1 = [(Suc (source_ids st), PRIORITY_LOW, b)]"
    using q(1) refreshWindows_first [OF q(2), of b] by simp
  have run: "main_loop_idle ?st1 =
     (case idle_callback b ?st1 of Inl e \<Rightarrow> Inl e
      | Inr st' \<Rightarrow> Inr (remove_source (Suc (source_ids st)) st'))"
    unfolding main_loop_idle_def one by (simp split: sum.splits)
  have after: "sources st' = [] \<and> activate_window_ID (emulator st') = None"
    if "main_loop_idle ?st1 = Inr st'" for st'
  proof -
    from that run obtain st2 where cb: "idle_callback b ?st1 = Inr st2"
      and st': "st' = remove_source (Suc (source_ids st)) st2"
      by (auto split: sum.splits)
    from idle_callback_sources [OF cb] one show ?thesis
      by (simp add: st' remove_source_def)
  qed
  from one run after show ?thesis by blast
qed

theorem C2_first_trigger_decides_witness:
  "sources fresh_state = [] \<and> \<not> truthy (activate_window_ID (emulator fresh_state)) \<and>
   sources (fold refreshWindows [True, False, True] fresh_state) = [(1, PRIORITY_LOW, True)] \<and>
   main_loop_idle (fold refreshWindows [True, False, True] fresh_state) =
     (case idle_callback True (fold refreshWindows [True, False, True] fresh_state) of
        Inl e \<Rightarrow> Inl e
      | Inr st' \<Rightarrow> Inr (remove_source 1 st'))"
proof -
  have a: "sources fresh_state = []" by (simp add: fresh_state_def)
  have b: "\<not> truthy (activate_window_ID (emulator fresh_state))"
    by (simp add: fresh_state_def new_EmulateX11WindowType_def truthy_def)
  have c: "Suc (source_ids fresh_state) = 1" by (simp add: fresh_state_def)
  show ?thesis
    using a b C2_first_trigger_decides [OF a b, of True "[False, True]"] unfolding c by blast
qed

subsection \<open>A pass while the overview is showing\<close>

text \<open>
  Claim C10: with no pass pending, when the overview is showing and a refresh is
  triggered, one source is attached at \<^verbatim>\<open>PRIORITY_LOW\<close>; its callback runs in the idle phase,
  makes no call and changes no window, and leaves no source and no stored id; the idle
  phase after it has nothing to run, so the dropped work is not replayed; and the
  \<^verbatim>\<open>hiding\<close> handler sets \<^verbatim>\<open>_enableRefresh\<close> and attaches a new source whose callback holds
  \<^verbatim>\<open>checkWorkspace = true\<close>.
\<close>

theorem C10_dropped_pass:
  "sources st = [] \<Longrightarrow> \<not> truthy (activate_window_ID (emulator st)) \<Longrightarrow>
   sources (refreshWindows cw (on_showing st)) = [(Suc (source_ids st), PRIORITY_LOW, cw)] \<and>
   (\<exists>st2. main_loop_idle (refreshWindows cw (on_showing st)) = Inr st2 \<and>
      calls st2 = calls st \<and> windows st2 = windows st \<and>
      \<not> enableRefresh (emulator st2) \<and>
      sources st2 = [] \<and> activate_window_ID (emulator st2) = None \<and>
      main_loop_idle st2 = Inr st2 \<and>
      enableRefresh (emulator (on_hiding st2)) \<and>
      sources (on_hiding st2) = [(Suc (Suc (source_ids st)), PRIORITY_LOW, True)])"
proof -
  assume q: "sources st = []" "\<not> truthy (activate_window_ID (emulator st))"
  let ?st1 = "refreshWindows cw (on_showing st)"
  let ?st2 = "st\<lparr>source_ids := Suc (source_ids st),
                 emulator := (emulator st)\<lparr>enableRefresh := False, activate_window_ID := None\<rparr>\<rparr>"
  have st1: "?st1 = st\<lparr>source_ids := Suc (source_ids st),
        sources := [(Suc (source_ids st), PRIORITY_LOW, cw)],
        emulator := (emulator st)\<lparr>enableRefresh := False,
                      activate_window_ID := Some (Suc (source_ids st))\<rparr>\<rparr>"
    using q by (simp add: refreshWindows_def on_showing_def idle_add_def Let_def)
  have run: "main_loop_idle ?st1 = Inr ?st2"
    unfolding st1 using q(1)
    by (simp add: main_loop_idle_def idle_callback_def remove_source_def)
  have idle: "main_loop_idle ?st2 = Inr ?st2"
    using q(1) by (simp add: main_loop_idle_def)
  have hide: "enableRefresh (emulator (on_hiding ?st2)) \<and>
      sources (on_hiding ?st2) = [(Suc (Suc (source_ids st)), PRIORITY_LOW, True)]"
    using q(1)
    by (simp add: on_hiding_def refreshWindows_def idle_add_def Let_def truthy_def)
  have src: "sources ?st1 = [(Suc (source_ids st), PRIORITY_LOW, cw)]"
    unfolding st1 by simp
  show ?thesis
    apply (rule conjI [OF src])
    apply (rule exI [of _ ?st2])
    using run idle hide q(1) by simp
qed

theorem C10_dropped_pass_witness:
  "sources fresh_state = [] \<and> \<not> truthy (activate_window_ID (emulator fresh_state)) \<and>
   sources (refreshWindows True (on_showing fresh_state)) = [(1, PRIORITY_LOW, True)] \<and>
   (\<exists>st2. main_loop_idle (refreshWindows True (on_showing fresh_state)) = Inr st2 \<and>
      calls st2 = calls fresh_state \<and> windows st2 = windows fresh_state \<and>
      \<not> enableRefresh (emulator st2) \<and>
      sources st2 = [] \<and> activate_window_ID (emulator st2) = None \<and>
      main_loop_idle st2 = Inr st2 \<and>
      enableRefresh (emulator (on_hiding st2)) \<and>
      sources (on_hiding st2) = [(2, PRIORITY_LOW, True)])"
proof -
  have a: "sources fresh_state = []" by (simp add: fresh_state_def)
  have b: "\<not> truthy (activate_window_ID (emulator fresh_state))"
    by (simp add: fresh_state_def new_EmulateX11WindowType_def truthy_def)
  have c: "source_ids fresh_state = 0" by (simp add: fresh_state_def)
  show ?thesis
    using a b C10_dropped_pass [OF a b, of True] unfolding c by (simp add: numeral_2_eq_2)
qed

subsection \<open>Which window is activated\<close>

lemma top_test_skipped: "top_test st w = (\<not> skipped st w)"
  by (auto simp: top_test_def skipped_def split: option.splits)

lemma bottom_test_pinned: "bottom_test st w = pinned_bottom_shown st w"
  by (auto simp: bottom_test_def pinned_bottom_shown_def split: option.splits)

lemma activate_loop_first:
  "(\<forall>v\<in>set pre. \<not> t v) \<Longrightarrow> t w \<Longrightarrow>
   activate_loop t (pre @ w # post) st = (True, st\<lparr>calls := calls st @ [activateWindow w]\<rparr>)"
  by (induction pre) simp_all

lemma activate_loop_none:
  "(\<forall>v\<in>set ws. \<not> t v) \<Longrightarrow> activate_loop t ws st = (False, st)"
  by (induction ws) simp_all

text \<open>
  Claim C4: in a pass with \<^verbatim>\<open>checkWorkspace\<close> true and refresh enabled, once every managed
  window has been refreshed (state \<open>st1\<close>), the callback ends with the activation step,
  which walks the list \<^verbatim>\<open>get_tab_list\<close> returned for the active workspace in its order,
  skips minimized windows and windows whose record is pinned to the bottom, and
  activates the first other window; when every window of that list is skipped, it walks
  the list of managed windows and activates the first that is pinned to the bottom and
  not minimized; when there is none either, it changes nothing, and in each case the
  callback returns without an error.
\<close>

theorem C4_activation_arbitration:
  "enableRefresh (emulator st) \<Longrightarrow> refresh_loop True (windowList (emulator st)) st = Inr st1 \<Longrightarrow>
   idle_callback True st =
     Inr ((activate_top_most st1)\<lparr>emulator := (emulator st1)\<lparr>activate_window_ID := None\<rparr>\<rparr>) \<and>
   (\<forall>pre w post. tab_list st1 = pre @ w # post \<and> (\<forall>v\<in>set pre. skipped st1 v) \<and>
        \<not> skipped st1 w \<longrightarrow>
      activate_top_most st1 = st1\<lparr>calls := calls st1 @ [activateWindow w]\<rparr>) \<and>
   ((\<forall>v\<in>set (tab_list st1). skipped st1 v) \<longrightarrow>
      (\<forall>pre w post. windowList (emulator st1) = pre @ w # post \<and>
          (\<forall>v\<in>set pre. \<not> pinned_bottom_shown st1 v) \<and> pinned_bottom_shown st1 w \<longrightarrow>
          activate_top_most st1 = st1\<lparr>calls := calls st1 @ [activateWindow w]\<rparr>) \<and>
      ((\<forall>v\<in>set (windowList (emulator st1)). \<not> pinned_bottom_shown st1 v) \<longrightarrow>
          activate_top_most st1 = st1))"
proof -
  assume en: "enableRefresh (emulator st)"
    and loop: "refresh_loop True (windowList (emulator st)) st = Inr st1"
  have cb: "idle_callback True st =
     Inr ((activate_top_most st1)\<lparr>emulator := (emulator st1)\<lparr>activate_window_ID := None\<rparr>\<rparr>)"
    using en loop by (simp add: idle_callback_def activate_top_most_sources)
  have top: "activate_top_most st1 = st1\<lparr>calls := calls st1 @ [activateWindow w]\<rparr>"
    if "tab_list st1 = pre @ w # post" "\<forall>v\<in>set pre. skipped st1 v" "\<not> skipped st1 w"
    for pre w post
    using that by (simp add: activate_top_most_def activate_loop_first top_test_skipped)
  have fallback: "activate_top_most st1 = st1\<lparr>calls := calls st1 @ [activateWindow w]\<rparr>"
    if "\<forall>v\<in>set (tab_list st1). skipped st1 v" "windowList (emulator st1) = pre @ w # post"
      "\<forall>v\<in>set pre. \<not> pinned_bottom_shown st1 v" "pinned_bottom_shown st1 w"
    for pre w post
    using that
    by (simp add: activate_top_most_def activate_loop_none activate_loop_first
        top_test_skipped bottom_test_pinned)
  have none: "activate_top_most st1 = st1"
    if "\<forall>v\<in>set (tab_list st1). skipped st1 v"
      "\<forall>v\<in>set (windowList (emulator st1)). \<not> pinned_bottom_shown st1 v"
    using that
    by (simp add: activate_top_most_def activate_loop_none top_test_skipped bottom_test_pinned)
  from cb top fallback none show ?thesis by blast
qed

theorem C4_activation_arbitration_witness:
  "enableRefresh (emulator desktop_state) \<and>
   refresh_loop True (windowList (emulator desktop_state)) desktop_state =
     Inr (perform 1 lower desktop_state) \<and>
   tab_list (perform 1 lower desktop_state) = [1] @ 2 # [3] \<and>
   skipped (perform 1 lower desktop_state) 1 \<and> \<not> skipped (perform 1 lower desktop_state) 2 \<and>
   activate_top_most (perform 1 lower desktop_state) =
     (perform 1 lower desktop_state)
       \<lparr>calls := calls (perform 1 lower desktop_state) @ [activateWindow 2]\<rparr> \<and>
   enableRefresh (emulator lone_state) \<and>
   refresh_loop True (windowList (emulator lone_state)) lone_state =
     Inr (perform 1 lower lone_state) \<and>
   tab_list (perform 1 lower lone_state) = [1] \<and>
   windowList (emulator (perform 1 lower lone_state)) = [] @ 1 # [] \<and>
   pinned_bottom_shown (perform 1 lower lone_state) 1 \<and>
   activate_top_most (perform 1 lower lone_state) =
     (perform 1 lower lone_state)
       \<lparr>calls := calls (perform 1 lower lone_state) @ [activateWindow 1]\<rparr>"
proof -
  let ?d = "perform 1 lower desktop_state"
  let ?l = "perform 1 lower lone_state"
  have d1: "enableRefresh (emulator desktop_state)" by (simp add: desktop_state_def)
  have d2: "refresh_loop True (windowList (emulator desktop_state)) desktop_state = Inr ?d"
    by (simp add: desktop_state_def desktop_ding_def refreshState_def)
  have d3: "tab_list ?d = [1] @ 2 # [3]" by (simp add: perform_def desktop_state_def)
  have d4: "\<forall>v\<in>set [1]. skipped ?d v"
    by (simp add: skipped_def perform_def desktop_state_def desktop_ding_def)
  have d5: "\<not> skipped ?d 2"
    by (simp add: skipped_def perform_def desktop_state_def plain_window_def)
  have l1: "enableRefresh (emulator lone_state)" by (simp add: lone_state_def desktop_state_def)
  have l2: "refresh_loop True (windowList (emulator lone_state)) lone_state = Inr ?l"
    by (simp add: lone_state_def desktop_state_def desktop_ding_def refreshState_def)
  have l3: "\<forall>v\<in>set (tab_list ?l). skipped ?l v"
    by (simp add: skipped_def perform_def lone_state_def desktop_state_def desktop_ding_def)
  have l4: "windowList (emulator ?l) = [] @ 1 # []"
    by (simp add: perform_def lone_state_def desktop_state_def)
  have l5: "pinned_bottom_shown ?l 1"
    by (simp add: pinned_bottom_shown_def perform_def lone_state_def desktop_state_def
        desktop_ding_def)
  have l6: "tab_list ?l = [1]" by (simp add: perform_def lone_state_def desktop_state_def)
  from C4_activation_arbitration [OF d1 d2] d3 d4 d5
  have dr: "activate_top_most ?d = ?d\<lparr>calls := calls ?d @ [activateWindow 2]\<rparr>"
    by blast
  from C4_activation_arbitration [OF l1 l2] l3 l4 l5
  have lr: "activate_top_most ?l = ?l\<lparr>calls := calls ?l @ [activateWindow 1]\<rparr>"
    by (metis empty_iff empty_set)
  from d1 d2 d3 d4 d5 dr l1 l2 l4 l5 l6 lr show ?thesis by simp
qed

subsection \<open>Tearing down\<close>

lemma performs_append: "performs w (cs @ ds) st = performs w ds (performs w cs st)"
  by (induction cs arbitrary: st) simp_all

lemma performs_disconnects:
  "same_tables st (performs w (map window_disconnect ids) st) \<and>
   calls (performs w (map window_disconnect ids) st) =
     calls st @ map (\<lambda>i. on_window w (window_disconnect i)) ids \<and>
   (\<forall>v. v \<noteq> w \<longrightarrow> windows (performs w (map window_disconnect ids) st) v = windows st v) \<and>
   customJS_ding (windows (performs w (map window_disconnect ids) st) w) =
     customJS_ding (windows st w) \<and>
   connections (windows (performs w (map window_disconnect ids) st) w) =
     filter (\<lambda>j. j \<notin> set ids) (connections (windows st w))"
proof (induction ids arbitrary: st)
  case Nil
  show ?case by (simp add: same_tables_def)
next
  case (Cons i ids)
  let ?st1 = "perform w (window_disconnect i) st"
  have step: "same_tables st ?st1 \<and> calls ?st1 = calls st @ [on_window w (window_disconnect i)] \<and>
     (\<forall>v. v \<noteq> w \<longrightarrow> windows ?st1 v = windows st v) \<and>
     customJS_ding (windows ?st1 w) = customJS_ding (windows st w) \<and>
     connections (windows ?st1 w) = filter (\<lambda>j. j \<noteq> i) (connections (windows st w))"
    by (simp add: perform_def same_tables_def)
  from Cons.IH [of ?st1] step show ?case
    by (simp add: same_tables_def conj_commute)
qed

lemma clearWindow_ok:
  assumes "customJS_ding (windows st w) = Some ding" and "unmanagedID ding = Some u"
  shows "\<exists>st'. clearWindow w st = Inr st' \<and> same_tables st st' \<and>
     calls st' = calls st @ teardown_calls w ding u \<and>
     (\<forall>v. v \<noteq> w \<longrightarrow> windows st' v = windows st v) \<and>
     customJS_ding (windows st' w) = None \<and>
     connections (windows st' w) =
       filter (\<lambda>j. j \<notin> set (u # signalIDs ding)) (connections (windows st w))"
proof -
  let ?st1 = "performs w (map window_disconnect (u # signalIDs ding)) st"
  let ?st2 = "performs w (if keepAtTop ding = Some True then [unmake_above] else []) ?st1"
  have two: "same_tables ?st1 ?st2 \<and> windows ?st2 = windows ?st1 \<and>
     calls ?st2 = calls ?st1 @ (if keepAtTop ding = Some True then [on_window w unmake_above] else [])"
    by (simp add: perform_def same_tables_def)
  have run: "clearWindow w st =
     Inr (?st2\<lparr>windows := (windows ?st2)(w := (windows ?st2 w)\<lparr>customJS_ding := None\<rparr>)\<rparr>)"
    using assms by (simp add: clearWindow_def disconnect_def performs_append Let_def)
  show ?thesis
    unfolding run using performs_disconnects [of st w "u # signalIDs ding"] two
    by (simp add: same_tables_def teardown_calls_def)
qed

lemma teardown_calls_no_cancel: "c \<in> set (teardown_calls w ding u) \<Longrightarrow> \<not> is_source_remove c"
  by (auto simp: teardown_calls_def is_source_remove_def split: if_splits)

lemma clear_loop_ok:
  "distinct ws \<Longrightarrow> list_all (managed st) ws \<Longrightarrow>
   \<exists>st'. clear_loop ws st = Inr st' \<and> same_tables st st' \<and>
     (\<exists>tl. calls st' = calls st @ tl \<and> list_all (\<lambda>c. \<not> is_source_remove c) tl) \<and>
     (\<forall>v. v \<notin> set ws \<longrightarrow> windows st' v = windows st v) \<and>
     (\<forall>w\<in>set ws. customJS_ding (windows st' w) = None \<and> connections (windows st' w) = [])"
proof (induction ws arbitrary: st)
  case Nil
  show ?case by (simp add: same_tables_def)
next
  case (Cons w ws)
  from Cons.prems obtain ding u where ding: "customJS_ding (windows st w) = Some ding"
    and u: "unmanagedID ding = Some u"
    and sub: "set (connections (windows st w)) \<subseteq> set (u # signalIDs ding)"
    by (auto simp: managed_def split: option.splits)
  from clearWindow_ok [OF ding u] obtain st1 where
    run1: "clearWindow w st = Inr st1" and tab1: "same_tables st st1"
    and calls1: "calls st1 = calls st @ teardown_calls w ding u"
    and other1: "\<forall>v. v \<noteq> w \<longrightarrow> windows st1 v = windows st v"
    and ding1: "customJS_ding (windows st1 w) = None"
    and conn1: "connections (windows st1 w) =
       filter (\<lambda>j. j \<notin> set (u # signalIDs ding)) (connections (windows st w))"
    by blast
  have empty1: "connections (windows st1 w) = []"
    unfolding conn1 using sub by (auto simp: filter_empty_conv)
  have notin: "w \<notin> set ws" and dist: "distinct ws" using Cons.prems(1) by simp_all
  have same: "windows st1 v = windows st v" if "v \<in> set ws" for v
    using that notin other1 by auto
  have "managed st1 v = managed st v" if "v \<in> set ws" for v
    unfolding managed_def same [OF that] by (rule refl)
  then have "list_all (managed st1) ws"
    using Cons.prems(2) by (simp add: list_all_iff)
  from Cons.IH [OF dist this] obtain st' tl where
    run: "clear_loop ws st1 = Inr st'" and tab: "same_tables st1 st'"
    and calls: "calls st' = calls st1 @ tl" and tl: "list_all (\<lambda>c. \<not> is_source_remove c) tl"
    and other: "\<forall>v. v \<notin> set ws \<longrightarrow> windows st' v = windows st1 v"
    and cleared: "\<forall>w\<in>set ws. customJS_ding (windows st' w) = None \<and> connections (windows st' w) = []"
    by blast
  have a: "clear_loop (w # ws) st = Inr st'" using run1 run by simp
  have b: "same_tables st st'" using tab1 tab by (simp add: same_tables_def)
  have c: "calls st' = calls st @ (teardown_calls w ding u @ tl)" using calls calls1 by simp
  have d: "list_all (\<lambda>c. \<not> is_source_remove c) (teardown_calls w ding u @ tl)"
    using tl teardown_calls_no_cancel by (auto simp: list_all_iff)
  have e: "\<forall>v. v \<notin> set (w # ws) \<longrightarrow> windows st' v = windows st v"
    using other other1 by simp
  have f: "\<forall>v\<in>set (w # ws). customJS_ding (windows st' v) = None \<and> connections (windows st' v) = []"
    using cleared other notin ding1 empty1 by auto
  from a b c d e f show ?case by blast
qed

lemma cancel_refresh_ok:
  assumes "map fst (sources st) = (case activate_window_ID (emulator st) of None \<Rightarrow> [] | Some i \<Rightarrow> [i])"
    and "activate_window_ID (emulator st) \<noteq> Some 0"
  shows "sources (cancel_refresh st) = [] \<and>
     emulator (cancel_refresh st) = (emulator st)\<lparr>activate_window_ID := None\<rparr> \<and>
     windows (cancel_refresh st) = windows st \<and>
     window_manager (cancel_refresh st) = window_manager st \<and>
     overview (cancel_refresh st) = overview st \<and>
     handler_ids (cancel_refresh st) = handler_ids st \<and>
     calls (cancel_refresh st) =
       calls st @ (case activate_window_ID (emulator st) of None \<Rightarrow> [] | Some i \<Rightarrow> [source_remove i])"
proof (cases "activate_window_ID (emulator st)")
  case None
  with assms show ?thesis by (simp add: cancel_refresh_def truthy_def)
next
  case (Some i)
  with assms have "map fst (sources st) = [i]" and "i \<noteq> 0" by simp_all
  then have "filter (\<lambda>s. fst s \<noteq> i) (sources st) = []"
    by (cases "sources st") auto
  with Some \<open>i \<noteq> 0\<close> show ?thesis
    by (simp add: cancel_refresh_def truthy_def remove_source_def Let_def)
qed

lemma disconnect_idMap_ok:
  "idMap (emulator st) \<noteq> Some 0 \<Longrightarrow>
   window_manager (disconnect_idMap st) =
     filter (\<lambda>h. Some (fst h) \<noteq> idMap (emulator st)) (window_manager st) \<and>
   overview (disconnect_idMap st) = overview st \<and>
   emulator (disconnect_idMap st) = (emulator st)\<lparr>idMap := None\<rparr> \<and>
   sources (disconnect_idMap st) = sources st \<and> windows (disconnect_idMap st) = windows st \<and>
   handler_ids (disconnect_idMap st) = handler_ids st \<and>
   (\<exists>tl. calls (disconnect_idMap st) = calls st @ tl \<and> list_all (\<lambda>c. \<not> is_source_remove c) tl)"
  by (cases "idMap (emulator st)")
    (simp_all add: disconnect_idMap_def window_manager_disconnect_call_def truthy_def
      is_source_remove_def)

lemma disconnect_idDestroy_ok:
  "idDestroy (emulator st) \<noteq> Some 0 \<Longrightarrow>
   window_manager (disconnect_idDestroy st) =
     filter (\<lambda>h. Some (fst h) \<noteq> idDestroy (emulator st)) (window_manager st) \<and>
   overview (disconnect_idDestroy st) = overview st \<and>
   emulator (disconnect_idDestroy st) = (emulator st)\<lparr>idDestroy := None\<rparr> \<and>
   sources (disconnect_idDestroy st) = sources st \<and> windows (disconnect_idDestroy st) = windows st \<and>
   handler_ids (disconnect_idDestroy st) = handler_ids st \<and>
   (\<exists>tl. calls (disconnect_idDestroy st) = calls st @ tl \<and> list_all (\<lambda>c. \<not> is_source_remove c) tl)"
  by (cases "idDestroy (emulator st)")
    (simp_all add: disconnect_idDestroy_def window_manager_disconnect_call_def truthy_def
      is_source_remove_def)

lemma disconnect_switchWorkspaceId_ok:
  "switchWorkspaceId (emulator st) \<noteq> Some 0 \<Longrightarrow>
   window_manager (disconnect_switchWorkspaceId st) =
     filter (\<lambda>h. Some (fst h) \<noteq> switchWorkspaceId (emulator st)) (window_manager st) \<and>
   overview (disconnect_switchWorkspaceId st) = overview st \<and>
   emulator (disconnect_switchWorkspaceId st) = (emulator st)\<lparr>switchWorkspaceId := None\<rparr> \<and>
   sources (disconnect_switchWorkspaceId st) = sources st \<and> windows (disconnect_switchWorkspaceId st) = windows st \<and>
   handler_ids (disconnect_switchWorkspaceId st) = handler_ids st \<and>
   (\<exists>tl. calls (disconnect_switchWorkspaceId st) = calls st @ tl \<and> list_all (\<lambda>c. \<not> is_source_remove c) tl)"
  by (cases "switchWorkspaceId (emulator st)")
    (simp_all add: disconnect_switchWorkspaceId_def window_manager_disconnect_call_def truthy_def
      is_source_remove_def)

lemma disconnect_showingId_ok:
  "showingId (emulator st) \<noteq> Some 0 \<Longrightarrow>
   overview (disconnect_showingId st) =
     filter (\<lambda>h. Some (fst h) \<noteq> showingId (emulator st)) (overview st) \<and>
   window_manager (disconnect_showingId st) = window_manager st \<and>
   emulator (disconnect_showingId st) = (emulator st)\<lparr>showingId := None\<rparr> \<and>
   sources (disconnect_showingId st) = sources st \<and> windows (disconnect_showingId st) = windows st \<and>
   handler_ids (disconnect_showingId st) = handler_ids st \<and>
   (\<exists>tl. calls (disconnect_showingId st) = calls st @ tl \<and> list_all (\<lambda>c. \<not> is_source_remove c) tl)"
  by (cases "showingId (emulator st)")
    (simp_all add: disconnect_showingId_def overview_disconnect_call_def truthy_def
      is_source_remove_def)

lemma disconnect_hidingId_ok:
  "hidingId (emulator st) \<noteq> Some 0 \<Longrightarrow>
   overview (disconnect_hidingId st) =
     filter (\<lambda>h. Some (fst h) \<noteq> hidingId (emulator st)) (overview st) \<and>
   window_manager (disconnect_hidingId st) = window_manager st \<and>
   emulator (disconnect_hidingId st) = (emulator st)\<lparr>hidingId := None\<rparr> \<and>
   sources (disconnect_hidingId st) = sources st \<and> windows (disconnect_hidingId st) = windows st \<and>
   handler_ids (disconnect_hidingId st) = handler_ids st \<and>
   (\<exists>tl. calls (disconnect_hidingId st) = calls st @ tl \<and> list_all (\<lambda>c. \<not> is_source_remove c) tl)"
  by (cases "hidingId (emulator st)")
    (simp_all add: disconnect_hidingId_def overview_disconnect_call_def truthy_def
      is_source_remove_def)

lemma held_filtered3:
  "filter (\<lambda>h. Some (fst h) \<noteq> c)
     (filter (\<lambda>h. Some (fst h) \<noteq> b)
        (filter (\<lambda>h. Some (fst h) \<noteq> a) (held a x @ held b y @ held c z))) = []"
  by (cases a; cases b; cases c) (simp_all add: held_def)

lemma held_filtered2:
  "filter (\<lambda>h. Some (fst h) \<noteq> b) (filter (\<lambda>h. Some (fst h) \<noteq> a) (held a x @ held b y)) = []"
  by (cases a; cases b) (simp_all add: held_def)

lemma disconnect_signals_ok:
  assumes wm: "window_manager st =
        held (idMap (emulator st)) map_signal @ held (idDestroy (emulator st)) destroy_signal @
        held (switchWorkspaceId (emulator st)) switch_workspace_signal"
    and ov: "overview st = held (showingId (emulator st)) showing_signal @
        held (hidingId (emulator st)) hiding_signal"
    and nz: "Some 0 \<notin> set [idMap (emulator st), idDestroy (emulator st),
           switchWorkspaceId (emulator st), showingId (emulator st), hidingId (emulator st)]"
  shows "window_manager (disconnect_signals st) = [] \<and> overview (disconnect_signals st) = [] \<and>
     emulator (disconnect_signals st) =
       (emulator st)\<lparr>idMap := None, idDestroy := None, switchWorkspaceId := None,
                     showingId := None, hidingId := None\<rparr> \<and>
     sources (disconnect_signals st) = sources st \<and>
     windows (disconnect_signals st) = windows st \<and>
     handler_ids (disconnect_signals st) = handler_ids st \<and>
     (\<exists>tl. calls (disconnect_signals st) = calls st @ tl \<and> list_all (\<lambda>c. \<not> is_source_remove c) tl)"
proof -
  let ?s1 = "disconnect_idMap st"
  let ?s2 = "disconnect_idDestroy ?s1"
  let ?s3 = "disconnect_switchWorkspaceId ?s2"
  let ?s4 = "disconnect_showingId ?s3"
  let ?s5 = "disconnect_hidingId ?s4"
  have n1: "idMap (emulator st) \<noteq> Some 0" using nz by auto
  note f1 = disconnect_idMap_ok [OF n1]
  have n2: "idDestroy (emulator ?s1) \<noteq> Some 0" using nz f1 by auto
  note f2 = disconnect_idDestroy_ok [OF n2]
  have n3: "switchWorkspaceId (emulator ?s2) \<noteq> Some 0" using nz f1 f2 by auto
  note f3 = disconnect_switchWorkspaceId_ok [OF n3]
  have n4: "showingId (emulator ?s3) \<noteq> Some 0" using nz f1 f2 f3 by auto
  note f4 = disconnect_showingId_ok [OF n4]
  have n5: "hidingId (emulator ?s4) \<noteq> Some 0" using nz f1 f2 f3 f4 by auto
  note f5 = disconnect_hidingId_ok [OF n5]
  have e1: "emulator ?s1 = (emulator st)\<lparr>idMap := None\<rparr>" using f1 by blast
  have e2: "emulator ?s2 = (emulator st)\<lparr>idMap := None, idDestroy := None\<rparr>"
    using f2 e1 by simp
  have e3: "emulator ?s3 = (emulator st)\<lparr>idMap := None, idDestroy := None,
       switchWorkspaceId := None\<rparr>"
    using f3 e2 by simp
  have e4: "emulator ?s4 = (emulator st)\<lparr>idMap := None, idDestroy := None,
       switchWorkspaceId := None, showingId := None\<rparr>"
    using f4 e3 by simp
  have w1: "window_manager ?s1 =
      filter (\<lambda>h. Some (fst h) \<noteq> idMap (emulator st)) (window_manager st)"
    using f1 by blast
  have w2: "window_manager ?s2 =
      filter (\<lambda>h. Some (fst h) \<noteq> idDestroy (emulator st)) (window_manager ?s1)"
    using f2 e1 by simp
  have w3: "window_manager ?s3 =
      filter (\<lambda>h. Some (fst h) \<noteq> switchWorkspaceId (emulator st)) (window_manager ?s2)"
    using f3 e2 by simp
  have w45: "window_manager ?s5 = window_manager ?s3" using f4 f5 by simp
  have w: "window_manager ?s5 = []"
    unfolding w45 w3 w2 w1 wm by (rule held_filtered3)
  have o3: "overview ?s3 = overview st" using f1 f2 f3 by simp
  have o4: "overview ?s4 =
      filter (\<lambda>h. Some (fst h) \<noteq> showingId (emulator st)) (overview ?s3)"
    using f4 e3 by simp
  have o5: "overview ?s5 =
      filter (\<lambda>h. Some (fst h) \<noteq> hidingId (emulator st)) (overview ?s4)"
    using f5 e4 by simp
  have o: "overview ?s5 = []"
    unfolding o5 o4 o3 ov by (rule held_filtered2)
  have e: "emulator ?s5 = (emulator st)\<lparr>idMap := None, idDestroy := None,
       switchWorkspaceId := None, showingId := None, hidingId := None\<rparr>"
    using f5 e4 by simp
  have r: "sources ?s5 = sources st \<and> windows ?s5 = windows st \<and> handler_ids ?s5 = handler_ids st"
    using f1 f2 f3 f4 f5 by simp
  from f1 obtain t1 where t1: "calls ?s1 = calls st @ t1" "list_all (\<lambda>c. \<not> is_source_remove c) t1"
    by blast
  from f2 obtain t2 where t2: "calls ?s2 = calls ?s1 @ t2" "list_all (\<lambda>c. \<not> is_source_remove c) t2"
    by blast
  from f3 obtain t3 where t3: "calls ?s3 = calls ?s2 @ t3" "list_all (\<lambda>c. \<not> is_source_remove c) t3"
    by blast
  from f4 obtain t4 where t4: "calls ?s4 = calls ?s3 @ t4" "list_all (\<lambda>c. \<not> is_source_remove c) t4"
    by blast
  from f5 obtain t5 where t5: "calls ?s5 = calls ?s4 @ t5" "list_all (\<lambda>c. \<not> is_source_remove c) t5"
    by blast
  have c: "calls ?s5 = calls st @ (t1 @ t2 @ t3 @ t4 @ t5) \<and>
      list_all (\<lambda>c. \<not> is_source_remove c) (t1 @ t2 @ t3 @ t4 @ t5)"
    using t1 t2 t3 t4 t5 by simp
  show ?thesis
    unfolding disconnect_signals_def using w o e r c by blast
qed

lemma enable_ok:
  "\<not> isX11 (emulator st) \<Longrightarrow>
   window_manager (enable st) = window_manager st @
     [(Suc (handler_ids st), map_signal), (Suc (Suc (handler_ids st)), destroy_signal),
      (Suc (Suc (Suc (handler_ids st))), switch_workspace_signal)] \<and>
   overview (enable st) = overview st @
     [(Suc (Suc (Suc (Suc (handler_ids st)))), showing_signal),
      (Suc (Suc (Suc (Suc (Suc (handler_ids st))))), hiding_signal)] \<and>
   emulator (enable st) =
     (emulator st)\<lparr>idMap := Some (Suc (handler_ids st)),
       idDestroy := Some (Suc (Suc (handler_ids st))),
       switchWorkspaceId := Some (Suc (Suc (Suc (handler_ids st)))),
       showingId := Some (Suc (Suc (Suc (Suc (handler_ids st))))),
       hidingId := Some (Suc (Suc (Suc (Suc (Suc (handler_ids st))))))\<rparr> \<and>
   sources (enable st) = sources st \<and> windows (enable st) = windows st \<and>
   calls (enable st) = calls st"
  by (simp add: enable_def window_manager_connect_def overview_connect_def Let_def)

lemma disable_effect:
  "consistent st \<Longrightarrow>
   (\<exists>st'. disable st = Inr st' \<and>
     (\<exists>tl. calls st' =
          calls st @
          (case activate_window_ID (emulator st) of None \<Rightarrow> [] | Some i \<Rightarrow> [source_remove i]) @ tl \<and>
        list_all (\<lambda>c. \<not> is_source_remove c) tl) \<and>
     sources st' = [] \<and>
     list_all (\<lambda>w. customJS_ding (windows st' w) = None \<and> connections (windows st' w) = [])
       (windowList (emulator st)) \<and>
     window_manager st' = [] \<and> overview st' = [] \<and>
     emulator st' =
       (new_EmulateX11WindowType True)
         \<lparr>enableRefresh := enableRefresh (emulator st),
          emulator_wayland_client := emulator_wayland_client (emulator st)\<rparr> \<and>
     windowList (emulator (enable st')) = [] \<and>
     map snd (window_manager (enable st')) =
       [map_signal, destroy_signal, switch_workspace_signal] \<and>
     map snd (overview (enable st')) = [showing_signal, hiding_signal] \<and>
     consistent (enable st'))"
proof -
  assume inv: "consistent st"
  let ?e = "emulator st"
  from inv have x11: "\<not> isX11 ?e" and dist: "distinct (windowList ?e)"
    and man: "list_all (managed st) (windowList ?e)"
    and wm: "window_manager st =
        held (idMap ?e) map_signal @ held (idDestroy ?e) destroy_signal @
        held (switchWorkspaceId ?e) switch_workspace_signal"
    and ov: "overview st = held (showingId ?e) showing_signal @ held (hidingId ?e) hiding_signal"
    and src: "map fst (sources st) = (case activate_window_ID ?e of None \<Rightarrow> [] | Some i \<Rightarrow> [i])"
    and nz: "Some 0 \<notin> set [idMap ?e, idDestroy ?e, switchWorkspaceId ?e, showingId ?e, hidingId ?e]"
    and nza: "activate_window_ID ?e \<noteq> Some 0"
    by (auto simp: consistent_def Let_def)
  let ?s1 = "cancel_refresh st"
  note c1 = cancel_refresh_ok [OF src nza]
  have e1: "emulator ?s1 = ?e\<lparr>activate_window_ID := None\<rparr>" using c1 by blast
  have win1: "windows ?s1 = windows st" using c1 by blast
  have "managed ?s1 w = managed st w" for w unfolding managed_def win1 by (rule refl)
  then have man1: "list_all (managed ?s1) (windowList (emulator ?s1))"
    using man e1 by (simp add: list_all_iff)
  have dist1: "distinct (windowList (emulator ?s1))" using dist e1 by simp
  from clear_loop_ok [OF dist1 man1] obtain s2 tl2 where
    run2: "clear_loop (windowList (emulator ?s1)) ?s1 = Inr s2" and tab2: "same_tables ?s1 s2"
    and calls2: "calls s2 = calls ?s1 @ tl2" and tl2: "list_all (\<lambda>c. \<not> is_source_remove c) tl2"
    and cleared: "\<forall>w\<in>set (windowList (emulator ?s1)).
        customJS_ding (windows s2 w) = None \<and> connections (windows s2 w) = []"
    by blast
  let ?s3 = "s2\<lparr>emulator := (emulator s2)\<lparr>windowList := []\<rparr>\<rparr>"
  have e3: "emulator ?s3 = ?e\<lparr>activate_window_ID := None, windowList := []\<rparr>"
    using tab2 e1 by (simp add: same_tables_def)
  have wm3: "window_manager ?s3 =
        held (idMap (emulator ?s3)) map_signal @ held (idDestroy (emulator ?s3)) destroy_signal @
        held (switchWorkspaceId (emulator ?s3)) switch_workspace_signal"
    using tab2 c1 wm e3 by (simp add: same_tables_def)
  have ov3: "overview ?s3 = held (showingId (emulator ?s3)) showing_signal @
        held (hidingId (emulator ?s3)) hiding_signal"
    using tab2 c1 ov e3 by (simp add: same_tables_def)
  have nz3: "Some 0 \<notin> set [idMap (emulator ?s3), idDestroy (emulator ?s3),
           switchWorkspaceId (emulator ?s3), showingId (emulator ?s3), hidingId (emulator ?s3)]"
    using nz e3 by simp
  let ?s4 = "disconnect_signals ?s3"
  note d4 = disconnect_signals_ok [OF wm3 ov3 nz3]
  from d4 obtain tl4 where calls4: "calls ?s4 = calls ?s3 @ tl4"
    and tl4: "list_all (\<lambda>c. \<not> is_source_remove c) tl4" by blast
  have run: "disable st = Inr ?s4"
    using x11 run2 by (simp add: disable_def Let_def)
  have tr: "calls ?s4 = calls st @
       (case activate_window_ID ?e of None \<Rightarrow> [] | Some i \<Rightarrow> [source_remove i]) @ (tl2 @ tl4) \<and>
       list_all (\<lambda>c. \<not> is_source_remove c) (tl2 @ tl4)"
    using calls4 calls2 c1 tl2 tl4 by simp
  have src4: "sources ?s4 = []"
    using d4 tab2 c1 by (simp add: same_tables_def)
  have win4: "windows ?s4 = windows s2" using d4 by simp
  have clr: "list_all (\<lambda>w. customJS_ding (windows ?s4 w) = None \<and> connections (windows ?s4 w) = [])
       (windowList ?e)"
    unfolding win4 using cleared e1 by (simp add: list_all_iff)
  have wm4: "window_manager ?s4 = []" and ov4: "overview ?s4 = []" using d4 by blast+
  have e4: "emulator ?s4 = ?e\<lparr>activate_window_ID := None, windowList := [], idMap := None,
       idDestroy := None, switchWorkspaceId := None, showingId := None, hidingId := None\<rparr>"
    using d4 e3 by simp
  have e4': "emulator ?s4 =
       (new_EmulateX11WindowType True)
         \<lparr>enableRefresh := enableRefresh ?e,
          emulator_wayland_client := emulator_wayland_client ?e\<rparr>"
    unfolding e4 using x11 by (simp add: new_EmulateX11WindowType_def)
  have x4: "\<not> isX11 (emulator ?s4)" using e4 x11 by simp
  note en = enable_ok [OF x4]
  have en1: "windowList (emulator (enable ?s4)) = []" using en e4 by simp
  have en2: "map snd (window_manager (enable ?s4)) =
       [map_signal, destroy_signal, switch_workspace_signal]"
    using en wm4 by simp
  have en3: "map snd (overview (enable ?s4)) = [showing_signal, hiding_signal]"
    using en ov4 by simp
  have en4: "consistent (enable ?s4)"
    using en wm4 ov4 src4 e4 x11 by (simp add: consistent_def held_def Let_def)
  show ?thesis
    apply (rule exI [of _ ?s4])
    using run tr src4 clr wm4 ov4 e4' en1 en2 en3 en4 by blast
qed

subsection \<open>Well-formed states stay well-formed\<close>

text \<open>
  The predicate \<open>consistent\<close> holds after \<^verbatim>\<open>enable()\<close> on a coordinator that holds nothing,
  and it is kept by the refresh triggers, by the idle pass, by the overview handlers, by
  the \<^verbatim>\<open>map\<close> signal of a window that is not yet managed, and by the \<^verbatim>\<open>unmanaged\<close> signal of
  a managed one.
\<close>

lemma consistent_enable:
  assumes "\<not> isX11 (emulator st)" and "windowList (emulator st) = []"
    and "window_manager st = []" and "overview st = []" and "sources st = []"
    and "activate_window_ID (emulator st) = None"
  shows "consistent (enable st)"
  using enable_ok [OF assms(1)] assms
  by (simp add: consistent_def held_def Let_def)

lemma managed_windows: "windows st' = windows st \<Longrightarrow> managed st' = managed st"
  by (rule ext) (simp add: managed_def cong: option.case_cong)

lemma managed_updates:
  "managed (st\<lparr>emulator := e\<rparr>) = managed st"
  "managed (st\<lparr>sources := ss\<rparr>) = managed st"
  "managed (st\<lparr>source_ids := n\<rparr>) = managed st"
  "managed (st\<lparr>calls := cs\<rparr>) = managed st"
  by (rule managed_windows, simp)+

lemma consistent_refreshWindows: "consistent st \<Longrightarrow> consistent (refreshWindows b st)"
proof (cases "activate_window_ID (emulator st)")
  case None
  assume c: "consistent st"
  then have "sources st = []" using None by (simp add: consistent_def Let_def)
  with c None show ?thesis
    by (simp add: refreshWindows_def idle_add_def truthy_def consistent_def Let_def
        managed_updates)
next
  case (Some i)
  assume c: "consistent st"
  then have "i \<noteq> 0" using Some by (auto simp: consistent_def Let_def)
  with c Some show ?thesis by (simp add: refreshWindows_def truthy_def)
qed

lemma consistent_on_showing: "consistent st \<Longrightarrow> consistent (on_showing st)"
  by (simp add: on_showing_def consistent_def Let_def managed_updates)

lemma consistent_on_hiding: "consistent st \<Longrightarrow> consistent (on_hiding st)"
proof -
  assume "consistent st"
  then have "consistent (st\<lparr>emulator := (emulator st)\<lparr>enableRefresh := True\<rparr>\<rparr>)"
    by (simp add: consistent_def Let_def managed_updates)
  then show ?thesis unfolding on_hiding_def by (rule consistent_refreshWindows)
qed

lemma consistent_on_destroy: "consistent st \<Longrightarrow> consistent (on_destroy is_menu st)"
  by (simp add: on_destroy_def consistent_refreshWindows)

lemma consistent_on_switch_workspace: "consistent st \<Longrightarrow> consistent (on_switch_workspace st)"
  by (simp add: on_switch_workspace_def consistent_refreshWindows)

text \<open>The idle pass changes no record and no handler of a window.\<close>

lemma perform_refresh_call:
  "c = change_workspace \<or> c = lower \<Longrightarrow>
   same_tables st (perform w c st) \<and>
   (\<forall>v. customJS_ding (windows (perform w c st) v) = customJS_ding (windows st v) \<and>
        connections (windows (perform w c st) v) = connections (windows st v))"
  by (auto simp: perform_def same_tables_def)

lemma performs_refresh_calls:
  "\<forall>c\<in>set cs. c = change_workspace \<or> c = lower \<Longrightarrow>
   same_tables st (performs w cs st) \<and>
   (\<forall>v. customJS_ding (windows (performs w cs st) v) = customJS_ding (windows st v) \<and>
        connections (windows (performs w cs st) v) = connections (windows st v))"
proof (induction cs arbitrary: st)
  case Nil
  show ?case by (simp add: same_tables_def)
next
  case (Cons c cs)
  from Cons.prems have c: "c = change_workspace \<or> c = lower" by simp
  from Cons.prems have cs: "\<forall>c\<in>set cs. c = change_workspace \<or> c = lower" by simp
  from perform_refresh_call [OF c, of st w] Cons.IH [OF cs, of "perform w c st"]
  show ?case by (simp add: same_tables_def)
qed

lemma refreshState_calls: "\<forall>c\<in>set (refreshState cw l d). c = change_workspace \<or> c = lower"
  by (auto simp: refreshState_def)

lemma refresh_loop_frame:
  "refresh_loop cw ws st = Inr st' \<Longrightarrow>
   same_tables st st' \<and>
   (\<forall>v. customJS_ding (windows st' v) = customJS_ding (windows st v) \<and>
        connections (windows st' v) = connections (windows st v))"
proof (induction ws arbitrary: st)
  case Nil
  then show ?case by (simp add: same_tables_def)
next
  case (Cons w ws)
  from Cons.prems obtain ding where d: "customJS_ding (windows st w) = Some ding"
    and run: "refresh_loop cw ws
        (performs w (refreshState cw (located_on_workspace (windows st w)) ding) st) = Inr st'"
    by (auto split: option.splits)
  from Cons.IH [OF run]
    performs_refresh_calls [OF refreshState_calls,
      of st w cw "located_on_workspace (windows st w)" ding]
  show ?case by (simp add: same_tables_def)
qed

lemma activate_loop_frame:
  "same_tables st (snd (activate_loop t ws st)) \<and>
   windows (snd (activate_loop t ws st)) = windows st"
  by (induction ws) (simp_all add: same_tables_def)

lemma activate_top_most_frame:
  "same_tables st (activate_top_most st) \<and> windows (activate_top_most st) = windows st"
proof -
  let ?r = "activate_loop (top_test st) (tab_list st) st"
  have a: "same_tables st (snd ?r) \<and> windows (snd ?r) = windows st"
    by (rule activate_loop_frame)
  have b: "same_tables (snd ?r)
      (snd (activate_loop (bottom_test (snd ?r)) (windowList (emulator (snd ?r))) (snd ?r))) \<and>
     windows (snd (activate_loop (bottom_test (snd ?r)) (windowList (emulator (snd ?r))) (snd ?r))) =
       windows (snd ?r)"
    by (rule activate_loop_frame)
  show ?thesis
    using a b by (simp add: activate_top_most_def case_prod_beta same_tables_def)
qed

lemma managed_frame:
  "customJS_ding (windows st' w) = customJS_ding (windows st w) \<Longrightarrow>
   connections (windows st' w) = connections (windows st w) \<Longrightarrow> managed st' w = managed st w"
  by (simp add: managed_def cong: option.case_cong)

lemma consistent_idle_callback:
  assumes c: "consistent st" and run: "idle_callback cw st = Inr st'"
  shows "emulator st' = (emulator st)\<lparr>activate_window_ID := None\<rparr> \<and>
     sources st' = sources st \<and> window_manager st' = window_manager st \<and>
     overview st' = overview st \<and> (\<forall>w. managed st' w = managed st w)"
proof (cases "enableRefresh (emulator st)")
  case False
  with run show ?thesis by (auto simp: idle_callback_def managed_updates)
next
  case True
  with run obtain st1 where loop: "refresh_loop cw (windowList (emulator st)) st = Inr st1"
    and st': "st' = (if cw then activate_top_most st1 else st1)
        \<lparr>emulator := (emulator (if cw then activate_top_most st1 else st1))
           \<lparr>activate_window_ID := None\<rparr>\<rparr>"
    by (auto simp: idle_callback_def split: sum.splits)
  note f1 = refresh_loop_frame [OF loop]
  note f2 = activate_top_most_frame [of st1]
  have fr: "same_tables st (if cw then activate_top_most st1 else st1)"
    using f1 f2 by (simp add: same_tables_def)
  have wn: "\<forall>v. customJS_ding (windows (if cw then activate_top_most st1 else st1) v) =
        customJS_ding (windows st v) \<and>
      connections (windows (if cw then activate_top_most st1 else st1) v) =
        connections (windows st v)"
    using f1 f2 by simp
  have m: "managed st' w = managed st w" for w
    by (rule managed_frame) (simp_all add: st' wn)
  show ?thesis
    using fr m by (simp add: st' same_tables_def)
qed


lemma consistent_main_loop_idle:
  assumes c: "consistent st" and run: "main_loop_idle st = Inr st'"
  shows "consistent st'"
proof (cases "sources st")
  case Nil
  with run c show ?thesis by (simp add: main_loop_idle_def)
next
  case (Cons s ss)
  from c have src: "map fst (sources st) =
      (case activate_window_ID (emulator st) of None \<Rightarrow> [] | Some i \<Rightarrow> [i])"
    by (simp add: consistent_def Let_def)
  with Cons have ss: "ss = []" and i: "activate_window_ID (emulator st) = Some (fst s)"
    by (auto split: option.splits)
  from run Cons ss obtain st1 where cb: "idle_callback (snd (snd s)) st = Inr st1"
    and st': "st' = remove_source (fst s) st1"
    by (auto simp: main_loop_idle_def split: sum.splits)
  note f = consistent_idle_callback [OF c cb]
  have "managed st' = managed st1"
    unfolding st' remove_source_def by (rule managed_updates)
  also have "managed st1 = managed st" using f by (auto intro!: ext)
  finally have m: "managed st' = managed st" .
  have e: "emulator st' = (emulator st)\<lparr>activate_window_ID := None\<rparr>"
    using f by (simp add: st' remove_source_def)
  have s: "sources st' = []"
    using f Cons ss by (simp add: st' remove_source_def)
  have t: "window_manager st' = window_manager st \<and> overview st' = overview st"
    using f by (simp add: st' remove_source_def)
  show ?thesis
    using c unfolding consistent_def Let_def m e s by (simp add: t)
qed

lemma consistent_outside:
  assumes c: "consistent st" and e: "emulator st' = emulator st"
    and t: "sources st' = sources st" "window_manager st' = window_manager st"
      "overview st' = overview st"
    and w: "\<forall>v\<in>set (windowList (emulator st)). windows st' v = windows st v"
  shows "consistent st'"
proof -
  have "managed st' v = managed st v" if "v \<in> set (windowList (emulator st))" for v
    by (rule managed_frame) (use w that in simp_all)
  then have "list_all (managed st') (windowList (emulator st))"
    using c by (simp add: consistent_def Let_def list_all_iff)
  with c show ?thesis
    by (simp add: consistent_def Let_def e t)
qed

lemma perform_unlisted:
  assumes c: "consistent st" and w: "w \<notin> set (windowList (emulator st))"
  shows "consistent (perform w call st) \<and>
     windowList (emulator (perform w call st)) = windowList (emulator st) \<and>
     handler_ids (perform w call st) = handler_ids st \<and>
     connections (windows (perform w call st) w) =
       (case call of window_disconnect i \<Rightarrow> filter (\<lambda>j. j \<noteq> i) (connections (windows st w))
        | _ \<Rightarrow> connections (windows st w)) \<and>
     get_title (windows (perform w call st) w) = get_title (windows st w)"
proof (cases "call = changedStatusCB")
  case True
  have c1: "consistent (st\<lparr>calls := calls st @ [on_window w changedStatusCB]\<rparr>)"
    by (rule consistent_outside [OF c]) simp_all
  have "perform w call st = refreshWindows True (st\<lparr>calls := calls st @ [on_window w changedStatusCB]\<rparr>)"
    using True by (simp add: perform_def)
  moreover have "windowList (emulator (refreshWindows True s)) = windowList (emulator s) \<and>
      handler_ids (refreshWindows True s) = handler_ids s \<and>
      windows (refreshWindows True s) = windows s" for s
    by (simp add: refreshWindows_def idle_add_def Let_def)
  ultimately show ?thesis
    using consistent_refreshWindows [OF c1, of True] True by simp
next
  case False
  have "consistent (perform w call st)"
    by (rule consistent_outside [OF c]) (use False w in \<open>cases call; auto simp: perform_def\<close>)+
  moreover have "windowList (emulator (perform w call st)) = windowList (emulator st) \<and>
     handler_ids (perform w call st) = handler_ids st \<and>
     connections (windows (perform w call st) w) =
       (case call of window_disconnect i \<Rightarrow> filter (\<lambda>j. j \<noteq> i) (connections (windows st w))
        | _ \<Rightarrow> connections (windows st w)) \<and>
     get_title (windows (perform w call st) w) = get_title (windows st w)"
    using False by (cases call) (simp_all add: perform_def)
  ultimately show ?thesis by simp
qed


lemma performs_unlisted:
  assumes c: "consistent st" and w: "w \<notin> set (windowList (emulator st))"
    and nd: "\<forall>call\<in>set cs. \<forall>i. call \<noteq> window_disconnect i"
  shows "consistent (performs w cs st) \<and>
     windowList (emulator (performs w cs st)) = windowList (emulator st) \<and>
     handler_ids (performs w cs st) = handler_ids st \<and>
     connections (windows (performs w cs st) w) = connections (windows st w)"
  using c w nd
proof (induction cs arbitrary: st)
  case Nil
  then show ?case by simp
next
  case (Cons call cs)
  note p = perform_unlisted [OF Cons.prems(1) Cons.prems(2), of call]
  have nd1: "\<forall>i. call \<noteq> window_disconnect i" using Cons.prems(3) by simp
  then have conn: "connections (windows (perform w call st) w) = connections (windows st w)"
    using p by (cases call) simp_all
  have w1: "w \<notin> set (windowList (emulator (perform w call st)))"
    using p Cons.prems(2) by simp
  have nd2: "\<forall>call\<in>set cs. \<forall>i. call \<noteq> window_disconnect i" using Cons.prems(3) by simp
  from Cons.IH [OF _ w1 nd2] p conn show ?case by simp
qed

lemma flag_loop_signalIDs: "signalIDs (flag_loop cs this) = signalIDs this"
  by (induction cs arbitrary: this) (simp_all add: flag_case_def)

lemma new_ManageWindow_signalIDs: "signalIDs (fst (new_ManageWindow w c ids t)) = ids"
  by (simp add: new_ManageWindow_def parseTitle_def parseTitle_fields_def new_fields_def
      Let_def flag_loop_signalIDs split: option.splits)

lemma new_ManageWindow_calls:
  "\<forall>call\<in>set (snd (new_ManageWindow w c ids t)). \<forall>i. call \<noteq> window_disconnect i"
  by (auto simp: new_ManageWindow_def parseTitle_def parseTitle_calls_def Let_def
      split: if_splits)

lemma window_connect_unlisted:
  assumes c: "consistent st" and w: "w \<notin> set (windowList (emulator st))"
  shows "consistent (snd (window_connect w st)) \<and>
     windowList (emulator (snd (window_connect w st))) = windowList (emulator st) \<and>
     fst (window_connect w st) = Suc (handler_ids st) \<and>
     handler_ids (snd (window_connect w st)) = Suc (handler_ids st) \<and>
     connections (windows (snd (window_connect w st)) w) =
       connections (windows st w) @ [Suc (handler_ids st)]"
proof -
  have "consistent (snd (window_connect w st))"
    by (rule consistent_outside [OF c]) (use w in \<open>auto simp: window_connect_def Let_def\<close>)
  then show ?thesis by (simp add: window_connect_def Let_def)
qed

lemma consistent_addWindow:
  assumes c: "consistent st" and w: "w \<notin> set (windowList (emulator st))"
    and fresh: "connections (windows st w) = []"
  shows "consistent (addWindow w st)"
proof -
  define i1 where "i1 = fst (window_connect w st)"
  define s1 where "s1 = snd (window_connect w st)"
  define i2 where "i2 = fst (window_connect w s1)"
  define s2 where "s2 = snd (window_connect w s1)"
  define i3 where "i3 = fst (window_connect w s2)"
  define s3 where "s3 = snd (window_connect w s2)"
  define i4 where "i4 = fst (window_connect w s3)"
  define s4 where "s4 = snd (window_connect w s3)"
  define new where "new = new_ManageWindow w (emulator_wayland_client (emulator s4))
      [i1, i2, i3, i4] (get_title (windows s4 w))"
  define s5 where "s5 = performs w (snd new) s4"
  define s7 where "s7 = s5
      \<lparr>windows := (windows s5)(w := (windows s5 w)\<lparr>customJS_ding := Some (fst new)\<rparr>),
       emulator := (emulator s5)\<lparr>windowList := windowList (emulator s5) @ [w]\<rparr>\<rparr>"
  define i5 where "i5 = fst (window_connect w s7)"
  define s8 where "s8 = snd (window_connect w s7)"
  define s9 where "s9 = s8
      \<lparr>windows := (windows s8)
         (w := (windows s8 w)\<lparr>customJS_ding := Some ((fst new)\<lparr>unmanagedID := Some i5\<rparr>)\<rparr>)\<rparr>"
  have r1: "window_connect w st = (i1, s1)" by (simp add: i1_def s1_def)
  have r2: "window_connect w s1 = (i2, s2)" by (simp add: i2_def s2_def)
  have r3: "window_connect w s2 = (i3, s3)" by (simp add: i3_def s3_def)
  have r4: "window_connect w s3 = (i4, s4)" by (simp add: i4_def s4_def)
  have r5: "new_ManageWindow w (emulator_wayland_client (emulator s4))
      [i1, i2, i3, i4] (get_title (windows s4 w)) = (fst new, snd new)"
    by (simp add: new_def)
  have r8: "window_connect w s7 = (i5, s8)" by (simp add: i5_def s8_def)
  have x: "\<not> isX11 (emulator st)" using c by (simp add: consistent_def Let_def)
  have run: "addWindow w st = s9"
    unfolding addWindow_def
    by (simp only: x if_False r1 r2 r3 r4 r5 Let_def prod.case s5_def [symmetric])
      (simp add: s7_def [symmetric] r8 s9_def)
  note k1 = window_connect_unlisted [OF c w, folded s1_def i1_def]
  have w1: "w \<notin> set (windowList (emulator s1))" using k1 w by simp
  note k2 = window_connect_unlisted [OF conjunct1 [OF k1] w1, folded s2_def i2_def]
  have w2: "w \<notin> set (windowList (emulator s2))" using k2 w1 by simp
  note k3 = window_connect_unlisted [OF conjunct1 [OF k2] w2, folded s3_def i3_def]
  have w3: "w \<notin> set (windowList (emulator s3))" using k3 w2 by simp
  note k4 = window_connect_unlisted [OF conjunct1 [OF k3] w3, folded s4_def i4_def]
  have c4: "consistent s4" and w4: "w \<notin> set (windowList (emulator s4))"
    and l4: "windowList (emulator s4) = windowList (emulator st)"
    and conn4: "connections (windows s4 w) = [i1, i2, i3, i4]"
    using k1 k2 k3 k4 w fresh by simp_all
  have nd: "\<forall>call\<in>set (snd new). \<forall>i. call \<noteq> window_disconnect i"
    unfolding new_def by (rule new_ManageWindow_calls)
  note k5 = performs_unlisted [OF c4 w4 nd, folded s5_def]
  have c5: "consistent s5" and l5: "windowList (emulator s5) = windowList (emulator st)"
    and conn5: "connections (windows s5 w) = [i1, i2, i3, i4]"
    using k5 l4 conn4 by simp_all
  have e9: "emulator s9 = (emulator s5)\<lparr>windowList := windowList (emulator s5) @ [w]\<rparr>"
    and t9: "sources s9 = sources s5" "window_manager s9 = window_manager s5"
      "overview s9 = overview s5"
    and o9: "\<And>v. v \<noteq> w \<Longrightarrow> windows s9 v = windows s5 v"
    and d9: "customJS_ding (windows s9 w) = Some ((fst new)\<lparr>unmanagedID := Some i5\<rparr>)"
    and n9: "connections (windows s9 w) = connections (windows s5 w) @ [i5]"
    by (simp_all add: s9_def s8_def i5_def s7_def window_connect_def Let_def)
  have m9: "managed s9 v = managed s5 v" if "v \<noteq> w" for v
    by (rule managed_frame) (simp_all only: o9 [OF that])
  have sig: "signalIDs (fst new) = [i1, i2, i3, i4]"
    unfolding new_def by (rule new_ManageWindow_signalIDs)
  have mw: "managed s9 w"
    by (simp add: managed_def d9 n9 conn5 sig)
  have "managed s9 v" if "v \<in> set (windowList (emulator s5))" for v
  proof -
    from that l5 w have "v \<noteq> w" by auto
    from m9 [OF this] c5 that show ?thesis
      by (simp add: consistent_def Let_def list_all_iff)
  qed
  with mw have all: "list_all (managed s9) (windowList (emulator s5) @ [w])"
    by (simp add: list_all_iff)
  have d: "distinct (windowList (emulator s5) @ [w])"
    using c5 w l5 by (simp add: consistent_def Let_def)
  show ?thesis
    unfolding run
    using c5 all d unfolding consistent_def Let_def e9 t9 by simp
qed


lemma consistent_on_map:
  "consistent st \<Longrightarrow> w \<notin> set (windowList (emulator st)) \<Longrightarrow>
   connections (windows st w) = [] \<Longrightarrow> consistent (on_map w belongs st)"
  by (simp add: on_map_def consistent_refreshWindows consistent_addWindow)

lemma consistent_on_unmanaged:
  assumes c: "consistent st" and w: "w \<in> set (windowList (emulator st))"
  shows "\<exists>st'. on_unmanaged w st = Inr st' \<and> consistent st'"
proof -
  from c w have "managed st w" by (simp add: consistent_def Let_def list_all_iff)
  then obtain ding u where ding: "customJS_ding (windows st w) = Some ding"
    and u: "unmanagedID ding = Some u"
    by (auto simp: managed_def split: option.splits)
  from clearWindow_ok [OF ding u] obtain st1 where
    run1: "clearWindow w st = Inr st1" and tab1: "same_tables st st1"
    and other1: "\<forall>v. v \<noteq> w \<longrightarrow> windows st1 v = windows st v"
    by blast
  let ?st' = "st1\<lparr>emulator := (emulator st1)
      \<lparr>windowList := filter (\<lambda>item. item \<noteq> w) (windowList (emulator st1))\<rparr>\<rparr>"
  have run: "on_unmanaged w st = Inr ?st'" using run1 by (simp add: on_unmanaged_def)
  have m: "managed ?st' v = managed st v" if "v \<noteq> w" for v
    by (rule managed_frame) (use other1 that in simp_all)
  have "consistent ?st'"
    using c tab1 m
    by (auto simp: consistent_def Let_def same_tables_def list_all_iff)
  with run show ?thesis by blast
qed

subsection \<open>What the well-formedness is needed for\<close>

text \<open>
  On X11 the three public methods return at once, so nothing is ever connected and
  there is nothing to tear down.
\<close>

lemma disable_X11:
  "isX11 (emulator st) \<Longrightarrow> enable st = st \<and> addWindow w st = st \<and> disable st = Inr st"
  by (simp add: enable_def addWindow_def disable_def)

text \<open>
  After two \<^verbatim>\<open>enable()\<close> in a row the compositor is Wayland and the list has no duplicate,
  but the state is not well-formed: \<^verbatim>\<open>disable()\<close> disconnects the five handlers whose ids
  the object holds, the five of the first call stay connected, and the next \<^verbatim>\<open>enable()\<close>
  leaves two handlers on each signal. So the condition on the handlers cannot be dropped
  from the amended claim C9 below.
\<close>

lemma twice_state_reached:
  "enable (enable (set_wayland_client True fresh_state)) = twice_state"
  unfolding enabled_state
  by (simp add: enable_def fresh_state_def window_manager_connect_def
      overview_connect_def new_EmulateX11WindowType_def Let_def twice_state_def)

lemma disable_twice_state:
  "disable twice_state =
     Inr (fresh_state\<lparr>emulator := (new_EmulateX11WindowType True)\<lparr>emulator_wayland_client := True\<rparr>,
       window_manager := [(1, map_signal), (2, destroy_signal), (3, switch_workspace_signal)],
       overview := [(4, showing_signal), (5, hiding_signal)],
       handler_ids := 10,
       calls := [window_manager_disconnect 6, window_manager_disconnect 7,
                 window_manager_disconnect 8, overview_disconnect 9, overview_disconnect 10]\<rparr>)"
  by (simp add: disable_def twice_state_def fresh_state_def new_EmulateX11WindowType_def
      cancel_refresh_def truthy_def disconnect_signals_def disconnect_idMap_def
      disconnect_idDestroy_def disconnect_switchWorkspaceId_def disconnect_showingId_def
      disconnect_hidingId_def window_manager_disconnect_call_def overview_disconnect_call_def
      Let_def)

lemma enable_twice_leaks:
  "\<not> isX11 (emulator twice_state) \<and> distinct (windowList (emulator twice_state)) \<and>
   \<not> consistent twice_state \<and>
   (case disable twice_state of
      Inl e \<Rightarrow> False
    | Inr st' \<Rightarrow>
        window_manager st' =
          [(1, map_signal), (2, destroy_signal), (3, switch_workspace_signal)] \<and>
        overview st' = [(4, showing_signal), (5, hiding_signal)] \<and>
        map snd (window_manager (enable st')) =
          [map_signal, destroy_signal, switch_workspace_signal,
           map_signal, destroy_signal, switch_workspace_signal] \<and>
        map snd (overview (enable st')) =
          [showing_signal, hiding_signal, showing_signal, hiding_signal])"
  unfolding disable_twice_state
  by (simp add: twice_state_def fresh_state_def new_EmulateX11WindowType_def consistent_def
      held_def enable_def window_manager_connect_def overview_connect_def Let_def)

subsection \<open>What \<^verbatim>\<open>disable()\<close> leaves\<close>

text \<open>
  Claim C9, as stated: \<^verbatim>\<open>disable()\<close> leaves the coordinator in the state it had before
  \<^verbatim>\<open>enable()\<close> was ever called. It fails when \<^verbatim>\<open>disable()\<close> is called while the overview is
  showing: \<^verbatim>\<open>_enableRefresh\<close> was true before \<^verbatim>\<open>enable()\<close>, the \<^verbatim>\<open>showing\<close> handler set it to
  false, and \<^verbatim>\<open>disable()\<close> does not assign it.
\<close>

theorem C9_counterexample:
  "enableRefresh (emulator (set_wayland_client True fresh_state)) \<and>
   (case disable (on_showing desktop_state) of
      Inl e \<Rightarrow> False
    | Inr st' \<Rightarrow>
        emulator st' = (emulator (set_wayland_client True fresh_state))\<lparr>enableRefresh := False\<rparr>)"
proof -
  from disable_effect [OF consistent_desktop_showing] obtain st' where big:
    "disable (on_showing desktop_state) = Inr st' \<and>
     (\<exists>tl. calls st' =
          calls (on_showing desktop_state) @
          (case activate_window_ID (emulator (on_showing desktop_state)) of
             None \<Rightarrow> [] | Some i \<Rightarrow> [source_remove i]) @ tl \<and>
        list_all (\<lambda>c. \<not> is_source_remove c) tl) \<and>
     sources st' = [] \<and>
     list_all (\<lambda>w. customJS_ding (windows st' w) = None \<and> connections (windows st' w) = [])
       (windowList (emulator (on_showing desktop_state))) \<and>
     window_manager st' = [] \<and> overview st' = [] \<and>
     emulator st' =
       (new_EmulateX11WindowType True)
         \<lparr>enableRefresh := enableRefresh (emulator (on_showing desktop_state)),
          emulator_wayland_client :=
            emulator_wayland_client (emulator (on_showing desktop_state))\<rparr> \<and>
     windowList (emulator (enable st')) = [] \<and>
     map snd (window_manager (enable st')) =
       [map_signal, destroy_signal, switch_workspace_signal] \<and>
     map snd (overview (enable st')) = [showing_signal, hiding_signal] \<and>
     consistent (enable st')" ..
  from big have run: "disable (on_showing desktop_state) = Inr st'" by (rule conjunct1)
  from big have e: "emulator st' =
       (new_EmulateX11WindowType True)
         \<lparr>enableRefresh := enableRefresh (emulator (on_showing desktop_state)),
          emulator_wayland_client :=
            emulator_wayland_client (emulator (on_showing desktop_state))\<rparr>"
    by simp
  show ?thesis
    unfolding run using e
    by (simp add: on_showing_def desktop_state_def fresh_state_def set_wayland_client_def
        new_EmulateX11WindowType_def)
qed

text \<open>
  Claim C9, amended. Let the state be well-formed (\<open>consistent\<close>): the compositor is
  Wayland; each window of the list is in it once and carries a record with its
  \<^verbatim>\<open>unmanagedID\<close>; the handlers connected on such a window are among those of its record;
  the handlers connected on the window manager and on the overview are exactly those
  whose ids the object holds, as after one \<^verbatim>\<open>enable()\<close> and not after a second \<^verbatim>\<open>enable()\<close>
  with no \<^verbatim>\<open>disable()\<close> between the two; the only source attached is the pending
  callback whose id the object holds; and no id the object holds is \<open>0\<close>.

  Then \<^verbatim>\<open>disable()\<close> returns without an error; the first call it makes is the
  \<^verbatim>\<open>source_remove\<close> of the pending callback, when there is one, and it makes no other
  \<^verbatim>\<open>source_remove\<close>; then no source is left, every window of the list has lost its record
  and its handlers, and no handler is left on the window manager or on the overview.
  The window list, the pending id and the five handler ids of the object are as the
  constructor left them; \<^verbatim>\<open>_enableRefresh\<close> and \<^verbatim>\<open>_wayland_client\<close> keep the values they had.
  After an \<^verbatim>\<open>enable()\<close> that follows at once, the list is empty, each of the five signals
  has one handler, and the state is well-formed again.
\<close>

theorem C9_disable_clean:
  "consistent st \<Longrightarrow>
   (\<exists>st'. disable st = Inr st' \<and>
     (\<exists>tl. calls st' =
          calls st @
          (case activate_window_ID (emulator st) of None \<Rightarrow> [] | Some i \<Rightarrow> [source_remove i]) @ tl \<and>
        list_all (\<lambda>c. \<not> is_source_remove c) tl) \<and>
     sources st' = [] \<and>
     list_all (\<lambda>w. customJS_ding (windows st' w) = None \<and> connections (windows st' w) = [])
       (windowList (emulator st)) \<and>
     window_manager st' = [] \<and> overview st' = [] \<and>
     emulator st' =
       (new_EmulateX11WindowType True)
         \<lparr>enableRefresh := enableRefresh (emulator st),
          emulator_wayland_client := emulator_wayland_client (emulator st)\<rparr> \<and>
     windowList (emulator (enable st')) = [] \<and>
     map snd (window_manager (enable st')) =
       [map_signal, destroy_signal, switch_workspace_signal] \<and>
     map snd (overview (enable st')) = [showing_signal, hiding_signal] \<and>
     consistent (enable st'))"
  by (rule disable_effect)

theorem C9_disable_clean_witness:
  "consistent desktop_state \<and>
   (\<exists>st'. disable desktop_state = Inr st' \<and>
     (\<exists>tl. calls st' = calls desktop_state @ [source_remove 1] @ tl \<and>
        list_all (\<lambda>c. \<not> is_source_remove c) tl) \<and>
     sources st' = [] \<and>
     customJS_ding (windows st' 1) = None \<and> connections (windows st' 1) = [] \<and>
     window_manager st' = [] \<and> overview st' = [] \<and>
     emulator st' = (new_EmulateX11WindowType True)\<lparr>emulator_wayland_client := True\<rparr> \<and>
     windowList (emulator (enable st')) = [] \<and>
     map snd (window_manager (enable st')) =
       [map_signal, destroy_signal, switch_workspace_signal] \<and>
     map snd (overview (enable st')) = [showing_signal, hiding_signal] \<and>
     consistent (enable st'))"
proof -
  have b: "activate_window_ID (emulator desktop_state) = Some 1"
    by (simp add: desktop_state_def)
  have c: "windowList (emulator desktop_state) = [1]" by (simp add: desktop_state_def)
  have d: "(new_EmulateX11WindowType True)
         \<lparr>enableRefresh := enableRefresh (emulator desktop_state),
          emulator_wayland_client := emulator_wayland_client (emulator desktop_state)\<rparr> =
       (new_EmulateX11WindowType True)\<lparr>emulator_wayland_client := True\<rparr>"
    by (simp add: desktop_state_def new_EmulateX11WindowType_def)
  show ?thesis
    using consistent_desktop C9_disable_clean [OF consistent_desktop] unfolding b c d by auto
qed

end
